theory Spec2Isabelle
  imports Main "HOL-Library.AList" "HOL-Library.Sublist"
begin

section \<open>Strings\<close>

text \<open>
  A document is a \<^typ>\<open>string\<close>; each \<^typ>\<open>char\<close> stands for one UTF-16 code unit
  below 256. The regular expressions of the scripts only distinguish white space
  (\<^verbatim>\<open>\s\<close>, also what \<^verbatim>\<open>trim()\<close> strips), word characters (\<^verbatim>\<open>\w\<close>), upper-case
  letters, underscore and a few literal characters; every other code unit behaves like
  any character that is in none of these classes.
\<close>

definition nl :: char where
  "nl = CHR 0x0A"

text \<open>The double quote, for messages that contain one.\<close>

definition dq :: char where
  "dq = CHR 0x22"

definition isSpace :: "char \<Rightarrow> bool" where
  "isSpace c \<longleftrightarrow> c = CHR 0x09 \<or> c = CHR 0x0A \<or> c = CHR 0x0B \<or> c = CHR 0x0C
     \<or> c = CHR 0x0D \<or> c = CHR 0x20 \<or> c = CHR 0xA0"

definition isUpperAZ :: "char \<Rightarrow> bool" where
  "isUpperAZ c \<longleftrightarrow> (let n = (of_char c :: nat) in 65 \<le> n \<and> n \<le> 90)"

definition isLowerAZ :: "char \<Rightarrow> bool" where
  "isLowerAZ c \<longleftrightarrow> (let n = (of_char c :: nat) in 97 \<le> n \<and> n \<le> 122)"

definition isDigit :: "char \<Rightarrow> bool" where
  "isDigit c \<longleftrightarrow> (let n = (of_char c :: nat) in 48 \<le> n \<and> n \<le> 57)"

text \<open>The class \<^verbatim>\<open>[A-Z_]\<close> of section names and the class \<^verbatim>\<open>\w\<close>.\<close>

definition isNameChar :: "char \<Rightarrow> bool" where
  "isNameChar c \<longleftrightarrow> isUpperAZ c \<or> c = CHR ''_''"

definition isWord :: "char \<Rightarrow> bool" where
  "isWord c \<longleftrightarrow> isUpperAZ c \<or> isLowerAZ c \<or> isDigit c \<or> c = CHR ''_''"

text \<open>
  \<^verbatim>\<open>toLowerCase()\<close> on code units below 256: the letters A-Z and the Latin-1 capitals
  0xC0-0xDE (without the multiplication sign 0xD7) move up by 32.
  \<^verbatim>\<open>toUpperCase()\<close> is only applied to section names, which are lower-cased
  \<^verbatim>\<open>[A-Z_]+\<close>; it is modelled on the letters a-z.
\<close>

definition lowerChar :: "char \<Rightarrow> char" where
  "lowerChar c = (let n = (of_char c :: nat) in
     if (65 \<le> n \<and> n \<le> 90) \<or> (192 \<le> n \<and> n \<le> 222 \<and> n \<noteq> 215)
     then char_of (n + 32) else c)"

definition upperChar :: "char \<Rightarrow> char" where
  "upperChar c = (let n = (of_char c :: nat) in
     if 97 \<le> n \<and> n \<le> 122 then char_of (n - 32) else c)"

definition toLowerCase :: "string \<Rightarrow> string" where
  "toLowerCase s = map lowerChar s"

definition toUpperCase :: "string \<Rightarrow> string" where
  "toUpperCase s = map upperChar s"

definition trim :: "string \<Rightarrow> string" where
  "trim s = rev (dropWhile isSpace (rev (dropWhile isSpace s)))"

fun join :: "string \<Rightarrow> string list \<Rightarrow> string" where
  "join sep [] = []"
| "join sep [x] = x"
| "join sep (x # y # ys) = x @ sep @ join sep (y # ys)"

fun stripPrefix :: "string \<Rightarrow> string \<Rightarrow> string option" where
  "stripPrefix [] s = Some s"
| "stripPrefix (p # ps) [] = None"
| "stripPrefix (p # ps) (c # s) = (if p = c then stripPrefix ps s else None)"

text \<open>\<^verbatim>\<open>Array.prototype.indexOf\<close>: the first index of the element, or -1.\<close>

fun indexOf :: "'a list \<Rightarrow> 'a \<Rightarrow> int" where
  "indexOf [] x = -1"
| "indexOf (y # ys) x =
     (if y = x then 0 else (let i = indexOf ys x in if i < 0 then -1 else i + 1))"

section \<open>Data model\<close>

text \<open>
  At run time an access level is a string: the parser stores whatever \<^verbatim>\<open>\w+\<close> token
  follows a section header, lower-cased, and the marker of a block is one of the three
  alternatives of the split pattern or the sentinel \<^verbatim>\<open>'inherited'\<close>. The field
  \<^verbatim>\<open>content\<close> of a section is called \<open>contentBlocks\<close> here, since a block has a field
  \<^verbatim>\<open>content\<close> too.
\<close>

type_synonym AccessLevel = string

record ContentBlock =
  content :: string
  accessLevel :: AccessLevel

record ParsedSection =
  name :: string
  defaultAccessLevel :: "AccessLevel option"
  contentBlocks :: "ContentBlock list"

text \<open>
  A \<^verbatim>\<open>Record<string, T>\<close> built by assignments is an association list in insertion
  order, which is the order \<^verbatim>\<open>Object.entries\<close> enumerates string keys in. Assigning to
  an existing key keeps its position. Assigning to the key \<^verbatim>\<open>__proto__\<close> of an object
  literal invokes the inherited setter and creates no own property.
\<close>

definition setProp :: "string \<Rightarrow> 'v \<Rightarrow> (string \<times> 'v) list \<Rightarrow> (string \<times> 'v) list" where
  "setProp k v obj = (if k = ''__proto__'' then obj else AList.update k v obj)"

section \<open>Document parser\<close>

text \<open>
  The sub-pattern \<^verbatim>\<open>\s*\n\<close> at the start of a string, with the engine's backtracking:
  the greedy star first takes the next white-space character and tries the rest; when
  that fails it stops and the line feed must match here. The result is the text after
  the match.
\<close>

fun matchWsNl :: "string \<Rightarrow> string option" where
  "matchWsNl [] = None"
| "matchWsNl (c # s) =
     (if isSpace c then
        (case matchWsNl s of
           Some r \<Rightarrow> Some r
         | None \<Rightarrow> if c = nl then Some s else None)
      else None)"

text \<open>
  The lazy body \<^verbatim>\<open>([\s\S]*?)(?=\n\[|$)\<close>: the shortest text after which the input
  ends or a line feed and an opening bracket follow. Returns the body and the rest.
\<close>

fun lazyBody :: "string \<Rightarrow> string \<times> string" where
  "lazyBody [] = ([], [])"
| "lazyBody (c # s) =
     (if c = nl \<and> (case s of [] \<Rightarrow> False | d # _ \<Rightarrow> d = CHR ''['') then ([], c # s)
      else (let (b, r) = lazyBody s in (c # b, r)))"

text \<open>
  The optional group \<^verbatim>\<open>(?:\s*@(\w+))?\<close> followed by \<^verbatim>\<open>\s*\n\<close>. The group is tried
  first. Inside it nothing can be given back: the white space ends at the \<^verbatim>\<open>@\<close>, and a
  shorter \<^verbatim>\<open>\w+\<close> would leave a word character where \<^verbatim>\<open>\s*\n\<close> has to start. When the
  attempt with the group fails, the header is matched without it.
\<close>

definition matchHeaderTail :: "string \<Rightarrow> (string option \<times> string) option" where
  "matchHeaderTail s =
     (let withGroup =
        (case dropWhile isSpace s of
           [] \<Rightarrow> None
         | c # t \<Rightarrow>
             if c = CHR ''@'' \<and> takeWhile isWord t \<noteq> [] then
               (case matchWsNl (dropWhile isWord t) of
                  Some r \<Rightarrow> Some (Some (takeWhile isWord t), r)
                | None \<Rightarrow> None)
             else None)
      in case withGroup of
           Some m \<Rightarrow> Some m
         | None \<Rightarrow> (case matchWsNl s of Some r \<Rightarrow> Some (None, r) | None \<Rightarrow> None))"

text \<open>
  The header \<^verbatim>\<open>\[([A-Z_]+)\]\<close> at the start of a string: the name and the text after
  the closing bracket. The name is the whole run of name characters, since the closing
  bracket is none.
\<close>

definition matchHeaderNameAt :: "string \<Rightarrow> (string \<times> string) option" where
  "matchHeaderNameAt s =
     (case s of
        [] \<Rightarrow> None
      | c # s1 \<Rightarrow>
          if c = CHR ''['' \<and> takeWhile isNameChar s1 \<noteq> [] then
            (case dropWhile isNameChar s1 of
               [] \<Rightarrow> None
             | d # s3 \<Rightarrow> if d = CHR '']'' then Some (takeWhile isNameChar s1, s3) else None)
          else None)"

text \<open>
  \<^verbatim>\<open>/\[([A-Z_]+)\](?:\s*@(\w+))?\s*\n([\s\S]*?)(?=\n\[|$)/\<close> at the start of a string:
  the captures 1, 2, 3 and the text after the match.
\<close>

definition matchSectionAt :: "string \<Rightarrow> (string \<times> string option \<times> string \<times> string) option" where
  "matchSectionAt s =
     (case matchHeaderNameAt s of
        None \<Rightarrow> None
      | Some (m1, s3) \<Rightarrow>
          (case matchHeaderTail s3 of
             None \<Rightarrow> None
           | Some (m2, r) \<Rightarrow> (let (m3, rest) = lazyBody r in Some (m1, m2, m3, rest))))"

lemma matchWsNl_shorter: "matchWsNl s = Some r \<Longrightarrow> length r < length s"
  by (induction s arbitrary: r) (auto split: if_splits option.splits)

lemma lazyBody_shorter: "lazyBody s = (b, r) \<Longrightarrow> length r \<le> length s"
  by (induction s arbitrary: b r) (auto split: if_splits prod.splits list.splits)

lemma dropWhile_shorter: "dropWhile P s = c # t \<Longrightarrow> length t < length s"
proof -
  assume h: "dropWhile P s = c # t"
  have "length (dropWhile P s) \<le> length s"
    by (rule length_dropWhile_le)
  with h show ?thesis by simp
qed

lemma matchHeaderTail_shorter: "matchHeaderTail s = Some (l, r) \<Longrightarrow> length r < length s"
proof -
  assume h: "matchHeaderTail s = Some (l, r)"
  have g: "\<And>t u. matchWsNl (dropWhile isWord t) = Some u \<Longrightarrow> length u < length t"
  proof -
    fix t u
    assume "matchWsNl (dropWhile isWord t) = Some u"
    then have "length u < length (dropWhile isWord t)"
      by (rule matchWsNl_shorter)
    also have "\<dots> \<le> length t"
      by (rule length_dropWhile_le)
    finally show "length u < length t" .
  qed
  from h show ?thesis
    unfolding matchHeaderTail_def Let_def
    by (auto split: list.splits if_splits option.splits
             dest!: matchWsNl_shorter g dropWhile_shorter)
qed

lemma matchHeaderNameAt_shorter:
  "matchHeaderNameAt s = Some (n, r) \<Longrightarrow> length r < length s"
  unfolding matchHeaderNameAt_def
  by (auto split: list.splits if_splits dest!: dropWhile_shorter)

lemma matchSectionAt_shorter:
  "matchSectionAt s = Some (n, l, b, r) \<Longrightarrow> length r < length s"
  unfolding matchSectionAt_def
  by (auto split: option.splits prod.splits
           dest!: matchHeaderNameAt_shorter matchHeaderTail_shorter lazyBody_shorter)

text \<open>
  \<^verbatim>\<open>/\n@(public|restricted|private)\s*\n/\<close> at the start of a string: the capture and
  the text after the match. The alternatives are tried in the order written.
\<close>

fun matchAlternatives :: "string list \<Rightarrow> string \<Rightarrow> (string \<times> string) option" where
  "matchAlternatives [] s = None"
| "matchAlternatives (a # as) s =
     (case stripPrefix a s of
        None \<Rightarrow> matchAlternatives as s
      | Some t \<Rightarrow>
          (case matchWsNl t of
             Some r \<Rightarrow> Some (a, r)
           | None \<Rightarrow> matchAlternatives as s))"

definition matchMarkerAt :: "string \<Rightarrow> (string \<times> string) option" where
  "matchMarkerAt s =
     (case s of
        c # d # t \<Rightarrow>
          if c = nl \<and> d = CHR ''@''
          then matchAlternatives [''public'', ''restricted'', ''private''] t
          else None
      | _ \<Rightarrow> None)"

lemma stripPrefix_shorter: "stripPrefix p s = Some t \<Longrightarrow> length t \<le> length s"
  by (induction p s rule: stripPrefix.induct) (auto split: if_splits)

lemma matchAlternatives_shorter:
  "matchAlternatives as s = Some (a, r) \<Longrightarrow> length r < length s"
  by (induction as) (auto split: option.splits dest!: stripPrefix_shorter matchWsNl_shorter)

lemma matchMarkerAt_shorter:
  assumes "matchMarkerAt s = Some (a, r)"
  shows "length r < length s"
proof -
  from assms obtain t where s: "s = nl # CHR ''@'' # t"
    and m: "matchAlternatives [''public'', ''restricted'', ''private''] t = Some (a, r)"
    unfolding matchMarkerAt_def
    by (auto split: list.splits if_splits simp del: matchAlternatives.simps)
  from m have "length r < length t"
    by (rule matchAlternatives_shorter)
  with s show ?thesis by simp
qed

text \<open>
  \<^verbatim>\<open>content.split(/\n@(public|restricted|private)\s*\n/)\<close>: the string is cut at every
  match, found from left to right from the end of the previous one, and the capture of
  each match is spliced between the pieces. \<open>cur\<close> is the piece read so far. The
  pattern matches no empty string, so the empty input gives one empty piece.
\<close>

function splitMarkers :: "string \<Rightarrow> string \<Rightarrow> string list" where
  "splitMarkers cur [] = [cur]"
| "splitMarkers cur (c # s) =
     (case matchMarkerAt (c # s) of
        Some (lvl, rest) \<Rightarrow> cur # lvl # splitMarkers [] rest
      | None \<Rightarrow> splitMarkers (cur @ [c]) s)"
  by pat_completeness auto
termination
  by (relation "measure (\<lambda>(cur, s). length s)") (auto dest: matchMarkerAt_shorter)

text \<open>
  The loop \<^verbatim>\<open>for (let i = 1; i < parts.length; i += 2)\<close> over the pieces after the
  first: a marker with the text after it gives a block when the trimmed text is not
  empty; a marker without a following piece gives nothing.
\<close>

fun explicitBlocks :: "string list \<Rightarrow> ContentBlock list" where
  "explicitBlocks (lvl # txt # rest) =
     (if trim txt \<noteq> [] then [\<lparr>content = trim txt, accessLevel = lvl\<rparr>] else [])
       @ explicitBlocks rest"
| "explicitBlocks _ = []"

definition parseContentBlocks :: "string \<Rightarrow> ContentBlock list" where
  "parseContentBlocks c =
     (case splitMarkers [] c of
        [] \<Rightarrow> []
      | p0 # parts \<Rightarrow>
          (if trim p0 \<noteq> [] then [\<lparr>content = trim p0, accessLevel = ''inherited''\<rparr>] else [])
            @ explicitBlocks parts)"

text \<open>
  The loop \<^verbatim>\<open>while ((match = sectionRegex.exec(content)) !== null)\<close> of a global
  pattern: the next match is looked for from the end of the previous one, at the
  leftmost position where the pattern matches. The argument \<open>dflt\<close> is the level a
  header without marker gets: \<^verbatim>\<open>'public'\<close> in the worker, \<^verbatim>\<open>undefined\<close> in the build and
  validation scripts.
\<close>

function scanSections ::
  "AccessLevel option \<Rightarrow> string \<Rightarrow> (string \<times> ParsedSection) list
     \<Rightarrow> (string \<times> ParsedSection) list" where
  "scanSections dflt [] sections = sections"
| "scanSections dflt (c # s) sections =
     (case matchSectionAt (c # s) of
        None \<Rightarrow> scanSections dflt s sections
      | Some (m1, m2, m3, rest) \<Rightarrow>
          (let sectionName = toLowerCase m1;
               defaultAccessLevel =
                 (case m2 of
                    None \<Rightarrow> dflt
                  | Some l \<Rightarrow> Some (toLowerCase l));
               sectionContent = trim m3;
               blocks = parseContentBlocks sectionContent
           in scanSections dflt rest
                (setProp sectionName
                   \<lparr>name = sectionName, defaultAccessLevel = defaultAccessLevel,
                    contentBlocks = blocks\<rparr> sections)))"
  by pat_completeness auto
termination
  by (relation "measure (\<lambda>(dflt, s, sections). length s)") (auto dest: matchSectionAt_shorter)

text \<open>The parser of the worker, and the parser of the build and validation scripts.\<close>

definition parseDaemonDataWithAccess :: "string \<Rightarrow> (string \<times> ParsedSection) list" where
  "parseDaemonDataWithAccess c = scanSections (Some ''public'') c []"

definition parseDaemonDataWithAccess_build :: "string \<Rightarrow> (string \<times> ParsedSection) list" where
  "parseDaemonDataWithAccess_build c = scanSections None c []"

section \<open>Access-level model and content filter (worker)\<close>

definition levelOrder :: "AccessLevel list" where
  "levelOrder = [''public'', ''restricted'', ''private'']"

definition isAccessible :: "AccessLevel \<Rightarrow> AccessLevel \<Rightarrow> bool" where
  "isAccessible contentLevel userLevel =
     (let contentIndex = indexOf levelOrder contentLevel;
          userIndex = indexOf levelOrder userLevel
      in userIndex \<ge> contentIndex)"

definition resolveContentAccessLevel :: "AccessLevel \<Rightarrow> AccessLevel \<Rightarrow> AccessLevel" where
  "resolveContentAccessLevel blockAccessLevel sectionDefaultLevel =
     (if blockAccessLevel = ''inherited'' then sectionDefaultLevel else blockAccessLevel)"

text \<open>\<^verbatim>\<open>x || d\<close> on an optional string: \<^verbatim>\<open>undefined\<close> and the empty string are falsy.\<close>

definition orElse :: "string option \<Rightarrow> string \<Rightarrow> string" where
  "orElse x d = (case x of None \<Rightarrow> d | Some v \<Rightarrow> if v = [] then d else v)"

fun accessibleBlocks :: "ParsedSection \<Rightarrow> AccessLevel \<Rightarrow> ContentBlock list \<Rightarrow> string list" where
  "accessibleBlocks section userLevel [] = []"
| "accessibleBlocks section userLevel (block # rest) =
     (let effectiveLevel =
            resolveContentAccessLevel (accessLevel block)
              (orElse (defaultAccessLevel section) ''public'')
      in if isAccessible effectiveLevel userLevel
         then content block # accessibleBlocks section userLevel rest
         else accessibleBlocks section userLevel rest)"

definition filterSectionContent :: "ParsedSection \<Rightarrow> AccessLevel \<Rightarrow> string" where
  "filterSectionContent section userLevel =
     join [nl, nl] (accessibleBlocks section userLevel (contentBlocks section))"

text \<open>
  The document provider either yields the text or fails; \<^verbatim>\<open>getDaemonContent\<close> catches
  the failure and returns the empty string.
\<close>

definition getDaemonContent :: "string option \<Rightarrow> string" where
  "getDaemonContent provider = (case provider of Some text \<Rightarrow> text | None \<Rightarrow> [])"

text \<open>The loop of \<^verbatim>\<open>loadDaemonData\<close> over \<^verbatim>\<open>Object.entries(sections)\<close>.\<close>

fun filterSections ::
  "(string \<times> ParsedSection) list \<Rightarrow> AccessLevel \<Rightarrow> (string \<times> string) list
     \<Rightarrow> (string \<times> string) list" where
  "filterSections [] userLevel filteredSections = filteredSections"
| "filterSections ((key, section) # entries) userLevel filteredSections =
     (let filteredContent = filterSectionContent section userLevel
      in if trim filteredContent \<noteq> []
         then filterSections entries userLevel (setProp key filteredContent filteredSections)
         else filterSections entries userLevel filteredSections)"

definition loadDaemonData :: "AccessLevel \<Rightarrow> string option \<Rightarrow> (string \<times> string) list" where
  "loadDaemonData userLevel provider =
     (let content = getDaemonContent provider;
          sections = parseDaemonDataWithAccess content
      in filterSections sections userLevel [])"

section \<open>Security validator (build and validation scripts)\<close>

record Validation =
  valid :: bool
  errors :: "string list"

definition violationMessage :: "string \<Rightarrow> AccessLevel \<Rightarrow> AccessLevel \<Rightarrow> string" where
  "violationMessage sectionName sectionLevel blockLevel =
     ''SECURITY VIOLATION: Section ['' @ toUpperCase sectionName @ ''] is @'' @ sectionLevel
       @ '', but contains @'' @ blockLevel @ '' content (less restrictive). ''
       @ ''Content must be @'' @ sectionLevel @ '' or higher.''"

text \<open>The inner loop over the blocks of one section; \<open>errs\<close> is the list of errors so far.\<close>

fun validateBlocks ::
  "string \<Rightarrow> AccessLevel \<Rightarrow> ContentBlock list \<Rightarrow> string list \<Rightarrow> string list" where
  "validateBlocks sectionName sectionLevel [] errs = errs"
| "validateBlocks sectionName sectionLevel (block # rest) errs =
     (if accessLevel block = ''inherited''
      then validateBlocks sectionName sectionLevel rest errs
      else
        (let sectionLevelValue = indexOf levelOrder sectionLevel;
             blockLevelValue = indexOf levelOrder (accessLevel block)
         in if blockLevelValue < sectionLevelValue
            then validateBlocks sectionName sectionLevel rest
                   (errs @ [violationMessage sectionName sectionLevel (accessLevel block)])
            else validateBlocks sectionName sectionLevel rest errs))"

text \<open>The outer loop; \<^verbatim>\<open>!sectionLevel\<close> holds for \<^verbatim>\<open>undefined\<close> and for the empty string.\<close>

fun validateSections :: "(string \<times> ParsedSection) list \<Rightarrow> string list \<Rightarrow> string list" where
  "validateSections [] errs = errs"
| "validateSections ((sectionName, section) # entries) errs =
     (case defaultAccessLevel section of
        None \<Rightarrow> validateSections entries errs
      | Some sectionLevel \<Rightarrow>
          if sectionLevel = [] then validateSections entries errs
          else validateSections entries
                 (validateBlocks sectionName sectionLevel (contentBlocks section) errs))"

definition validateContentSecurity :: "string \<Rightarrow> Validation" where
  "validateContentSecurity c =
     (let sections = parseDaemonDataWithAccess_build c;
          errs = validateSections sections []
      in \<lparr>valid = (length errs = 0), errors = errs\<rparr>)"

section \<open>Format validator (validation script)\<close>

record FormatValidation = Validation +
  warnings :: "string list"

text \<open>The negative look-ahead \<^verbatim>\<open>(?!\s*@\w)\<close> fails exactly when this holds.\<close>

definition aheadLevelToken :: "string \<Rightarrow> bool" where
  "aheadLevelToken s =
     (case dropWhile isSpace s of
        c # d # _ \<Rightarrow> c = CHR ''@'' \<and> isWord d
      | _ \<Rightarrow> False)"

text \<open>\<^verbatim>\<open>/\[([A-Z_]+)\](?!\s*@\w)/\<close> at the start of a string.\<close>

definition matchNoSectionLevelAt :: "string \<Rightarrow> (string \<times> string) option" where
  "matchNoSectionLevelAt s =
     (case matchHeaderNameAt s of
        None \<Rightarrow> None
      | Some (m1, r) \<Rightarrow> if aheadLevelToken r then None else Some (m1, r))"

text \<open>\<^verbatim>\<open>/\[([A-Z_]+)\]\s*@(\w+)/\<close> at the start of a string: both captures and the rest.\<close>

definition matchSectionLevelAt :: "string \<Rightarrow> (string \<times> string \<times> string) option" where
  "matchSectionLevelAt s =
     (case matchHeaderNameAt s of
        None \<Rightarrow> None
      | Some (m1, r) \<Rightarrow>
          (case dropWhile isSpace r of
             [] \<Rightarrow> None
           | c # t \<Rightarrow>
               if c = CHR ''@'' \<and> takeWhile isWord t \<noteq> []
               then Some (m1, takeWhile isWord t, dropWhile isWord t)
               else None))"

text \<open>\<^verbatim>\<open>/@(\w+)\s*\n/\<close> at the start of a string: the capture and the rest.\<close>

definition matchContentLevelAt :: "string \<Rightarrow> (string \<times> string) option" where
  "matchContentLevelAt s =
     (case s of
        [] \<Rightarrow> None
      | c # t \<Rightarrow>
          if c = CHR ''@'' \<and> takeWhile isWord t \<noteq> [] then
            (case matchWsNl (dropWhile isWord t) of
               Some r \<Rightarrow> Some (takeWhile isWord t, r)
             | None \<Rightarrow> None)
          else None)"

lemma matchNoSectionLevelAt_shorter:
  "matchNoSectionLevelAt s = Some (n, r) \<Longrightarrow> length r < length s"
  unfolding matchNoSectionLevelAt_def
  by (auto split: option.splits if_splits dest!: matchHeaderNameAt_shorter)

lemma matchSectionLevelAt_shorter:
  assumes "matchSectionLevelAt s = Some (n, l, r)"
  shows "length r < length s"
proof -
  from assms obtain r0 c t where h: "matchHeaderNameAt s = Some (n, r0)"
    and d: "dropWhile isSpace r0 = c # t" and r: "r = dropWhile isWord t"
    unfolding matchSectionLevelAt_def
    by (auto split: option.splits list.splits if_splits)
  have "length r \<le> length t"
    unfolding r by (rule length_dropWhile_le)
  also have "length t < length r0"
    using d by (rule dropWhile_shorter)
  also have "length r0 < length s"
    using h by (rule matchHeaderNameAt_shorter)
  finally show ?thesis .
qed

lemma matchContentLevelAt_shorter:
  assumes "matchContentLevelAt s = Some (l, r)"
  shows "length r < length s"
proof -
  from assms obtain c t where s: "s = c # t" and m: "matchWsNl (dropWhile isWord t) = Some r"
    unfolding matchContentLevelAt_def
    by (auto split: option.splits list.splits if_splits)
  from m have "length r < length (dropWhile isWord t)"
    by (rule matchWsNl_shorter)
  also have "\<dots> \<le> length t"
    by (rule length_dropWhile_le)
  finally show ?thesis using s by simp
qed

text \<open>The three \<^verbatim>\<open>exec\<close> scans of \<^verbatim>\<open>validateAccessFormat\<close>, each pushing onto its list.\<close>

function scanNoSectionLevel :: "string \<Rightarrow> string list \<Rightarrow> string list" where
  "scanNoSectionLevel [] warns = warns"
| "scanNoSectionLevel (c # s) warns =
     (case matchNoSectionLevelAt (c # s) of
        None \<Rightarrow> scanNoSectionLevel s warns
      | Some (m1, rest) \<Rightarrow>
          scanNoSectionLevel rest
            (warns @ [''Section '' @ [dq] @ m1 @ [dq]
               @ '' has no default access level (will default to @public)'']))"
  by pat_completeness auto
termination
  by (relation "measure (\<lambda>(s, warns). length s)") (auto dest: matchNoSectionLevelAt_shorter)

function scanSectionLevel :: "string \<Rightarrow> string list \<Rightarrow> string list" where
  "scanSectionLevel [] errs = errs"
| "scanSectionLevel (c # s) errs =
     (case matchSectionLevelAt (c # s) of
        None \<Rightarrow> scanSectionLevel s errs
      | Some (m1, m2, rest) \<Rightarrow>
          if m2 \<notin> set [''public'', ''restricted'', ''private'']
          then scanSectionLevel rest
                 (errs @ [''Section '' @ [dq] @ m1 @ [dq] @ '' has invalid access level: @'' @ m2])
          else scanSectionLevel rest errs)"
  by pat_completeness auto
termination
  by (relation "measure (\<lambda>(s, errs). length s)") (auto dest: matchSectionLevelAt_shorter)

function scanContentLevel :: "string \<Rightarrow> string list \<Rightarrow> string list" where
  "scanContentLevel [] errs = errs"
| "scanContentLevel (c # s) errs =
     (case matchContentLevelAt (c # s) of
        None \<Rightarrow> scanContentLevel s errs
      | Some (m1, rest) \<Rightarrow>
          if m1 \<notin> set [''public'', ''restricted'', ''private'']
          then scanContentLevel rest (errs @ [''Invalid content access level: @'' @ m1])
          else scanContentLevel rest errs)"
  by pat_completeness auto
termination
  by (relation "measure (\<lambda>(s, errs). length s)") (auto dest: matchContentLevelAt_shorter)

text \<open>
  \<^verbatim>\<open>validateAccessFormat\<close> of the validation script. The build script has the same
  function without the warnings.
\<close>

definition validateAccessFormat :: "string \<Rightarrow> FormatValidation" where
  "validateAccessFormat c =
     (let warns = scanNoSectionLevel c [];
          errs = scanContentLevel c (scanSectionLevel c [])
      in \<lparr>valid = (length errs = 0), errors = errs, warnings = warns\<rparr>)"

section \<open>Build script\<close>

text \<open>
  \<^verbatim>\<open>buildDaemonData\<close>: \<open>source\<close> is what reading the source file gives (\<open>None\<close> when
  the read raises), \<open>fsOk\<close> tells whether creating the directory and writing the output
  succeed. Every exception is caught and makes the build fail. The result holds the
  return value and the text written to \<^verbatim>\<open>public/daemon.md\<close>, if any.
\<close>

record BuildResult =
  success :: bool
  written :: "string option"

definition buildDaemonData :: "string option \<Rightarrow> bool \<Rightarrow> BuildResult" where
  "buildDaemonData source fsOk =
     (case source of
        None \<Rightarrow> \<lparr>success = False, written = None\<rparr>
      | Some c \<Rightarrow>
          if \<not> valid (validateAccessFormat c) then \<lparr>success = False, written = None\<rparr>
          else if \<not> valid (validateContentSecurity c) then \<lparr>success = False, written = None\<rparr>
          else if \<not> fsOk then \<lparr>success = False, written = None\<rparr>
          else \<lparr>success = True, written = Some c\<rparr>)"

section \<open>Query router (worker)\<close>

text \<open>The tools with their access levels, and the static map from tool to section.\<close>

definition TOOLS :: "(string \<times> AccessLevel option) list" where
  "TOOLS =
     [(''get_about'', Some ''public''),
      (''get_narrative'', Some ''restricted''),
      (''get_mission'', Some ''public''),
      (''get_projects'', Some ''restricted''),
      (''get_telos'', Some ''restricted''),
      (''get_favorite_books'', Some ''public''),
      (''get_favorite_movies'', Some ''public''),
      (''get_current_location'', Some ''public''),
      (''get_preferences'', Some ''restricted''),
      (''get_daily_routine'', Some ''restricted''),
      (''get_predictions'', Some ''restricted''),
      (''get_favorite_podcasts'', Some ''public''),
      (''get_personal_contacts'', Some ''private''),
      (''get_family_details'', Some ''private''),
      (''get_mico_instructions'', Some ''private''),
      (''get_all'', Some ''public''),
      (''get_section'', Some ''public'')]"

definition toolToSection :: "(string \<times> string) list" where
  "toolToSection =
     [(''get_about'', ''about''),
      (''get_narrative'', ''narrative''),
      (''get_mission'', ''mission''),
      (''get_projects'', ''projects''),
      (''get_telos'', ''telos''),
      (''get_favorite_books'', ''favorite_books''),
      (''get_favorite_movies'', ''favorite_movies''),
      (''get_current_location'', ''current_location''),
      (''get_preferences'', ''preferences''),
      (''get_daily_routine'', ''daily_routine''),
      (''get_predictions'', ''predictions''),
      (''get_favorite_podcasts'', ''favorite_podcasts''),
      (''get_personal_contacts'', ''personal_contacts''),
      (''get_family_details'', ''family_details''),
      (''get_mico_instructions'', ''mico_instructions'')]"

text \<open>
  The outcome of a \<^verbatim>\<open>tools/call\<close> request, without the request id and the headers that
  every response carries: a JSON-RPC error with code and message, or a result whose
  content is a text. For \<^verbatim>\<open>get_all\<close> the text is the JSON rendering of the structured
  data extracted from the filtered sections, which are kept here as they are. A
  property read that finds no own property but a member inherited from
  \<^verbatim>\<open>Object.prototype\<close> gives a result that is no string.
\<close>

datatype Response =
    JsonRpcError int string
  | ToolText string
  | ToolStructured "(string \<times> string) list"
  | ToolInherited string

text \<open>
  \<^verbatim>\<open>args.section\<close>: absent, a string, or a value of another type, on which
  \<^verbatim>\<open>toLowerCase\<close> is no function; the exception is caught by the handler.
\<close>

datatype ArgValue = ArgUndefined | ArgString string | ArgOther

text \<open>
  \<^verbatim>\<open>sections[sectionName] || `Section '...' not found or not accessible`\<close>. After lower
  casing, the names that \<^verbatim>\<open>Object.prototype\<close> answers are
  \<^verbatim>\<open>constructor\<close> and \<^verbatim>\<open>__proto__\<close>.
\<close>

definition notFoundText :: "string \<Rightarrow> string" where
  "notFoundText sectionName =
     ''Section '' @ [CHR 0x27] @ sectionName @ [CHR 0x27] @ '' not found or not accessible''"

definition sectionOrNotFound :: "(string \<times> string) list \<Rightarrow> string \<Rightarrow> Response" where
  "sectionOrNotFound sections sectionName =
     (case map_of sections sectionName of
        Some text \<Rightarrow> if text \<noteq> [] then ToolText text else ToolText (notFoundText sectionName)
      | None \<Rightarrow>
          if sectionName \<in> set [''constructor'', ''__proto__''] then ToolInherited sectionName
          else ToolText (notFoundText sectionName))"

text \<open>
  The branch \<^verbatim>\<open>tools/call\<close> of \<^verbatim>\<open>handleMcpRequest\<close>, from the resolved level of the
  requester, the tool name, the argument \<^verbatim>\<open>section\<close> and what the document provider
  gives.
\<close>

definition handleToolsCall ::
  "AccessLevel \<Rightarrow> string option \<Rightarrow> ArgValue \<Rightarrow> string option \<Rightarrow> Response" where
  "handleToolsCall userAccessLevel toolName argSection provider =
     (if orElse toolName [] = [] then JsonRpcError (- 32602) ''Invalid params: missing tool name''
      else
        (let tn = orElse toolName [] in
         case find (\<lambda>t. fst t = tn) TOOLS of
           None \<Rightarrow> JsonRpcError (- 32601) (''Unknown tool: '' @ tn)
         | Some tool \<Rightarrow>
             if \<not> isAccessible (orElse (snd tool) ''public'') userAccessLevel
             then JsonRpcError (- 32603)
                    (''Access denied: '' @ tn @ '' requires ''
                       @ (case snd tool of None \<Rightarrow> ''undefined'' | Some l \<Rightarrow> l)
                       @ '' access'')
             else
               (let sections = loadDaemonData userAccessLevel provider in
                if tn = ''get_all'' then ToolStructured sections
                else if tn = ''get_section'' then
                  (case argSection of
                     ArgOther \<Rightarrow> JsonRpcError (- 32700) ''Parse error''
                   | ArgUndefined \<Rightarrow>
                       JsonRpcError (- 32602) ''Invalid params: missing section name''
                   | ArgString a \<Rightarrow>
                       (let sectionName = toLowerCase a in
                        if sectionName = []
                        then JsonRpcError (- 32602) ''Invalid params: missing section name''
                        else sectionOrNotFound sections sectionName))
                else
                  (case map_of toolToSection tn of
                     Some sectionName \<Rightarrow> sectionOrNotFound sections sectionName
                   | None \<Rightarrow> JsonRpcError (- 32601) (''Unknown tool: '' @ tn)))))"

section \<open>The access scale of the specification\<close>

text \<open>
  The three canonical levels with their ranks as the specification gives them
  (public 0, restricted 1, private 2), and the string each is written as.
\<close>

datatype Level = Public | Restricted | Private

fun rank :: "Level \<Rightarrow> int" where
  "rank Public = 0"
| "rank Restricted = 1"
| "rank Private = 2"

fun levelName :: "Level \<Rightarrow> AccessLevel" where
  "levelName Public = ''public''"
| "levelName Restricted = ''restricted''"
| "levelName Private = ''private''"

definition allLevels :: "Level list" where
  "allLevels = [Public, Restricted, Private]"

section \<open>Notions used to state the properties\<close>

text \<open>The test of the loop of \<open>accessibleBlocks\<close>: the block is kept for this requester.\<close>

definition blockVisible :: "ParsedSection \<Rightarrow> AccessLevel \<Rightarrow> ContentBlock \<Rightarrow> bool" where
  "blockVisible section userLevel block =
     isAccessible
       (resolveContentAccessLevel (accessLevel block)
          (orElse (defaultAccessLevel section) ''public''))
       userLevel"

text \<open>
  The effective level as the specification words it: the explicit level of the block
  when it has one, otherwise the declared level of the section, public when the section
  declares none.
\<close>

definition effectiveLevel :: "ParsedSection \<Rightarrow> ContentBlock \<Rightarrow> AccessLevel" where
  "effectiveLevel section block =
     (if accessLevel block \<noteq> ''inherited'' then accessLevel block
      else (case defaultAccessLevel section of None \<Rightarrow> ''public'' | Some l \<Rightarrow> l))"

text \<open>
  What every parse establishes: the keys are distinct and none is \<^verbatim>\<open>__proto__\<close>, no
  declared level is the empty string, every block has text that is not blank and a
  level among the sentinel and the three markers.
\<close>

definition wellFormedSections :: "(string \<times> ParsedSection) list \<Rightarrow> bool" where
  "wellFormedSections secs \<longleftrightarrow>
     distinct (map fst secs) \<and> ''__proto__'' \<notin> fst ` set secs \<and>
     (\<forall>(k, sec)\<in>set secs.
        defaultAccessLevel sec \<noteq> Some [] \<and>
        (\<forall>b\<in>set (contentBlocks sec).
           trim (content b) \<noteq> [] \<and>
           accessLevel b \<in> set [''inherited'', ''public'', ''restricted'', ''private'']))"

text \<open>
  A section as the worker stores it, from the section as the scripts store it: a header
  without marker is public.
\<close>

definition publicByDefault :: "ParsedSection \<Rightarrow> ParsedSection" where
  "publicByDefault sec =
     sec\<lparr>defaultAccessLevel :=
       (case defaultAccessLevel sec of None \<Rightarrow> Some ''public'' | Some l \<Rightarrow> Some l)\<rparr>"

text \<open>
  The violations of monotonicity as the specification words them: the sections with a
  declared level, each with its non-inherited blocks whose level ranks strictly below
  the declared one, in document order.
\<close>

definition violatingPairs ::
  "(string \<times> ParsedSection) list \<Rightarrow> (string \<times> AccessLevel \<times> ContentBlock) list" where
  "violatingPairs secs =
     concat (map (\<lambda>(n, sec).
       (case defaultAccessLevel sec of
          None \<Rightarrow> []
        | Some l \<Rightarrow>
            if l = [] then []
            else map (\<lambda>b. (n, l, b))
                   (filter (\<lambda>b. accessLevel b \<noteq> ''inherited''
                       \<and> indexOf levelOrder (accessLevel b) < indexOf levelOrder l)
                     (contentBlocks sec)))) secs)"

section \<open>Facts about strings, the filter and the parser\<close>

lemma indexOf_levelName: "indexOf levelOrder (levelName l) = rank l"
  by (cases l) (simp_all add: levelOrder_def)

lemma trim_eq_Nil_iff: "trim s = [] \<longleftrightarrow> (\<forall>c\<in>set s. isSpace c)"
proof
  assume "trim s = []"
  then have a: "\<forall>c\<in>set (dropWhile isSpace s). isSpace c"
    by (simp add: trim_def dropWhile_eq_Nil_conv)
  show "\<forall>c\<in>set s. isSpace c"
  proof
    fix c assume c: "c \<in> set s"
    show "isSpace c"
    proof (rule ccontr)
      assume n: "\<not> isSpace c"
      have "s = takeWhile isSpace s @ dropWhile isSpace s" by simp
      then have "set s = set (takeWhile isSpace s) \<union> set (dropWhile isSpace s)"
        by (metis set_append)
      with c have "c \<in> set (takeWhile isSpace s) \<or> c \<in> set (dropWhile isSpace s)" by blast
      then show False
      proof
        assume "c \<in> set (takeWhile isSpace s)"
        then have "isSpace c" by (rule set_takeWhileD[THEN conjunct2])
        with n show False ..
      next
        assume "c \<in> set (dropWhile isSpace s)"
        with a n show False by blast
      qed
    qed
  qed
next
  assume "\<forall>c\<in>set s. isSpace c"
  then show "trim s = []"
    by (auto simp: trim_def dropWhile_eq_Nil_conv dest: set_dropWhileD)
qed

lemma trim_has_nonspace: "trim s \<noteq> [] \<Longrightarrow> \<exists>c\<in>set (trim s). \<not> isSpace c"
proof -
  assume h: "trim s \<noteq> []"
  let ?d = "dropWhile isSpace (rev (dropWhile isSpace s))"
  from h have "?d \<noteq> []" by (simp add: trim_def)
  then have "\<not> isSpace (hd ?d)" by (rule hd_dropWhile)
  moreover from \<open>?d \<noteq> []\<close> have "hd ?d \<in> set (trim s)"
    by (simp add: trim_def)
  ultimately show ?thesis by blast
qed

lemma set_join: "x \<in> set xs \<Longrightarrow> set x \<subseteq> set (join sep xs)"
  by (induction sep xs rule: join.induct) auto

lemma set_join_upper: "set (join sep xs) \<subseteq> set sep \<union> (\<Union>x\<in>set xs. set x)"
  by (induction sep xs rule: join.induct) auto

lemma accessibleBlocks_filter:
  "accessibleBlocks section u blocks = map content (filter (blockVisible section u) blocks)"
  by (induction blocks) (simp_all add: blockVisible_def)

lemma isAccessible_mono:
  "indexOf levelOrder x \<le> indexOf levelOrder y \<Longrightarrow> isAccessible c x \<Longrightarrow> isAccessible c y"
  by (simp add: isAccessible_def)

lemma blockVisible_mono:
  "rank x \<le> rank y \<Longrightarrow> blockVisible s (levelName x) b \<Longrightarrow> blockVisible s (levelName y) b"
  unfolding blockVisible_def
  by (rule isAccessible_mono) (simp_all add: indexOf_levelName)

lemma subseq_filter_mono:
  "(\<And>x. P x \<Longrightarrow> Q x) \<Longrightarrow> subseq (filter P xs) (filter Q xs)"
  by (induction xs) auto

lemma accessibleBlocks_mono:
  assumes "rank x \<le> rank y"
  shows "subseq (accessibleBlocks s (levelName x) bs) (accessibleBlocks s (levelName y) bs)"
  unfolding accessibleBlocks_filter
  by (intro subseq_map subseq_filter_mono blockVisible_mono[OF assms])

lemma nonspace_join_mono:
  assumes "subseq xs ys" and "trim (join [nl, nl] xs) \<noteq> []"
  shows "trim (join [nl, nl] ys) \<noteq> []"
proof -
  from assms(2) obtain c where c: "c \<in> set (join [nl, nl] xs)" and n: "\<not> isSpace c"
    by (auto simp: trim_eq_Nil_iff)
  from n have "c \<noteq> nl" by (auto simp: isSpace_def nl_def)
  with c set_join_upper[of "[nl, nl]" xs] obtain x where x: "x \<in> set xs" "c \<in> set x"
    by auto
  have "x \<in> set ys"
    by (rule list_emb_set[OF assms(1) x(1)]) simp
  then have "set x \<subseteq> set (join [nl, nl] ys)" by (rule set_join)
  with x(2) n show ?thesis by (auto simp: trim_eq_Nil_iff)
qed

lemma filterSections_keys:
  "fst ` set (filterSections secs u acc) =
     fst ` set acc \<union>
     {k. k \<noteq> ''__proto__'' \<and> (\<exists>s. (k, s) \<in> set secs \<and> trim (filterSectionContent s u) \<noteq> [])}"
proof (induction secs arbitrary: acc)
  case Nil
  show ?case by simp
next
  case (Cons p secs)
  obtain k s where p: "p = (k, s)" by (cases p)
  show ?case
    unfolding p
    by (auto simp: Cons.IH Let_def setProp_def AList.dom_update)
qed

lemma filterSectionContent_mono:
  assumes "rank x \<le> rank y" and "trim (filterSectionContent s (levelName x)) \<noteq> []"
  shows "trim (filterSectionContent s (levelName y)) \<noteq> []"
  using assms(2) unfolding filterSectionContent_def
  by (rule nonspace_join_mono[OF accessibleBlocks_mono[OF assms(1)]])


lemma trim_trim_nonempty: "trim s \<noteq> [] \<Longrightarrow> trim (trim s) \<noteq> []"
  using trim_has_nonspace[of s] by (auto simp: trim_eq_Nil_iff[of "trim s"])

lemma matchAlternatives_member: "matchAlternatives as s = Some (a, r) \<Longrightarrow> a \<in> set as"
  by (induction as) (auto split: option.splits)

lemma matchMarkerAt_level:
  "matchMarkerAt s = Some (a, r) \<Longrightarrow> a \<in> set [''public'', ''restricted'', ''private'']"
  unfolding matchMarkerAt_def
  by (auto split: list.splits if_splits simp del: matchAlternatives.simps
           dest!: matchAlternatives_member)

lemma splitMarkers_nonempty: "splitMarkers cur s \<noteq> []"
  by (induction cur s rule: splitMarkers.induct) (auto split: option.splits)

lemma explicitBlocks_content:
  "b \<in> set (explicitBlocks parts) \<Longrightarrow> trim (content b) \<noteq> []"
  by (induction parts rule: explicitBlocks.induct) (auto simp: trim_trim_nonempty split: if_splits)

lemma explicitBlocks_splitMarkers_level:
  "b \<in> set (explicitBlocks (tl (splitMarkers cur s))) \<Longrightarrow>
   accessLevel b \<in> set [''public'', ''restricted'', ''private'']"
proof (induction cur s rule: splitMarkers.induct)
  case (1 cur)
  then show ?case by simp
next
  case (2 cur c s)
  show ?case
  proof (cases "matchMarkerAt (c # s)")
    case None
    with 2 show ?thesis by simp
  next
    case (Some m)
    obtain lvl rest where m: "m = (lvl, rest)" by (cases m)
    obtain p ps where ps: "splitMarkers [] rest = p # ps"
      using splitMarkers_nonempty[of "[]" rest] by (cases "splitMarkers [] rest") auto
    from Some m have lv: "lvl \<in> set [''public'', ''restricted'', ''private'']"
      by (auto dest: matchMarkerAt_level)
    from "2.prems" Some m ps
    have "b \<in> set ((if trim p \<noteq> [] then [\<lparr>content = trim p, accessLevel = lvl\<rparr>] else [])
                      @ explicitBlocks ps)"
      by simp
    then consider "b = \<lparr>content = trim p, accessLevel = lvl\<rparr>" | "b \<in> set (explicitBlocks ps)"
      by (auto split: if_splits)
    then show ?thesis
    proof cases
      case 1
      with lv show ?thesis by simp
    next
      case 2
      have "b \<in> set (explicitBlocks (tl (splitMarkers [] rest)))"
        using 2 ps by simp
      with "2.IH"(2)[OF Some m[symmetric]] show ?thesis by simp
    qed
  qed
qed

lemma parseContentBlocks_wf:
  assumes "b \<in> set (parseContentBlocks c)"
  shows "trim (content b) \<noteq> []"
    and "accessLevel b \<in> set [''inherited'', ''public'', ''restricted'', ''private'']"
proof -
  obtain p ps where ps: "splitMarkers [] c = p # ps"
    using splitMarkers_nonempty[of "[]" c] by (cases "splitMarkers [] c") auto
  from assms ps consider "b = \<lparr>content = trim p, accessLevel = ''inherited''\<rparr>" "trim p \<noteq> []"
    | "b \<in> set (explicitBlocks ps)"
    by (auto simp: parseContentBlocks_def split: if_splits)
  then have "trim (content b) \<noteq> [] \<and>
     accessLevel b \<in> set [''inherited'', ''public'', ''restricted'', ''private'']"
  proof cases
    case 1
    then show ?thesis by (simp add: trim_trim_nonempty)
  next
    case 2
    then have "b \<in> set (explicitBlocks (tl (splitMarkers [] c)))" using ps by simp
    from explicitBlocks_splitMarkers_level[OF this] explicitBlocks_content[OF 2]
    show ?thesis by auto
  qed
  then show "trim (content b) \<noteq> []"
    and "accessLevel b \<in> set [''inherited'', ''public'', ''restricted'', ''private'']"
    by blast+
qed


lemma matchHeaderTail_level: "matchHeaderTail s = Some (Some l, r) \<Longrightarrow> l \<noteq> []"
  unfolding matchHeaderTail_def Let_def
  by (auto split: list.splits if_splits option.splits)

lemma matchSectionAt_level: "matchSectionAt s = Some (m1, Some l, m3, r) \<Longrightarrow> l \<noteq> []"
  unfolding matchSectionAt_def
  by (auto split: option.splits prod.splits dest: matchHeaderTail_level)

lemma set_update_subset: "set (AList.update k v al) \<subseteq> insert (k, v) (set al)"
  by (induction al) auto

lemma wellFormedSections_setProp:
  assumes "wellFormedSections secs"
    and "defaultAccessLevel sec \<noteq> Some []"
    and "\<And>b. b \<in> set (contentBlocks sec) \<Longrightarrow>
           trim (content b) \<noteq> [] \<and>
           accessLevel b \<in> set [''inherited'', ''public'', ''restricted'', ''private'']"
  shows "wellFormedSections (setProp k sec secs)"
proof (cases "k = ''__proto__''")
  case True
  with assms(1) show ?thesis by (simp add: setProp_def)
next
  case False
  have d: "distinct (map fst (AList.update k sec secs))"
    using assms(1) by (simp add: wellFormedSections_def distinct_update)
  have p: "''__proto__'' \<notin> fst ` set (AList.update k sec secs)"
    using assms(1) False by (simp add: wellFormedSections_def dom_update)
  have e: "\<forall>(k', sec')\<in>set (AList.update k sec secs).
        defaultAccessLevel sec' \<noteq> Some [] \<and>
        (\<forall>b\<in>set (contentBlocks sec').
           trim (content b) \<noteq> [] \<and>
           accessLevel b \<in> set [''inherited'', ''public'', ''restricted'', ''private''])"
  proof (clarify, intro conjI ballI)
    fix k' sec' assume m: "(k', sec') \<in> set (AList.update k sec secs)"
    from m set_update_subset[of k sec secs]
    have c: "(k', sec') = (k, sec) \<or> (k', sec') \<in> set secs" by blast
    from c assms show "defaultAccessLevel sec' \<noteq> Some []"
      by (auto simp: wellFormedSections_def)
    fix b assume "b \<in> set (contentBlocks sec')"
    with c assms(1,3)
    show "trim (content b) \<noteq> []"
      and "accessLevel b \<in> set [''inherited'', ''public'', ''restricted'', ''private'']"
      unfolding wellFormedSections_def by blast+
  qed
  from d p e False show ?thesis
    unfolding wellFormedSections_def setProp_def by simp
qed

lemma toLowerCase_Nil_iff: "toLowerCase l = [] \<longleftrightarrow> l = []"
  by (simp add: toLowerCase_def)

lemma scanSections_wf:
  "dflt \<noteq> Some [] \<Longrightarrow> wellFormedSections acc \<Longrightarrow> wellFormedSections (scanSections dflt s acc)"
proof (induction dflt s acc rule: scanSections.induct)
  case (1 dflt sections)
  then show ?case by simp
next
  case (2 dflt c s sections)
  show ?case
  proof (cases "matchSectionAt (c # s)")
    case None
    with 2 show ?thesis by simp
  next
    case (Some m)
    obtain m1 m2 m3 rest where m: "m = (m1, m2, m3, rest)" by (cases m)
    let ?lvl = "case m2 of None \<Rightarrow> dflt | Some l \<Rightarrow> Some (toLowerCase l)"
    let ?sec = "\<lparr>name = toLowerCase m1, defaultAccessLevel = ?lvl,
                  contentBlocks = parseContentBlocks (trim m3)\<rparr>"
    have l: "?lvl \<noteq> Some []"
      using "2.prems"(1) Some m
      by (auto split: option.splits simp: toLowerCase_Nil_iff dest: matchSectionAt_level)
    have w: "wellFormedSections (setProp (toLowerCase m1) ?sec sections)"
      by (rule wellFormedSections_setProp[OF "2.prems"(2)])
         (use l in \<open>auto dest: parseContentBlocks_wf\<close>)
    have "wellFormedSections (scanSections dflt rest (setProp (toLowerCase m1) ?sec sections))"
      by (rule "2.IH"(2)[OF Some, of m1 "(m2, m3, rest)" m2 "(m3, rest)" m3 rest])
         (simp_all add: m "2.prems"(1) w)
    then show ?thesis using Some m by (simp add: Let_def)
  qed
qed

lemma parse_wf: "wellFormedSections (parseDaemonDataWithAccess c)"
  unfolding parseDaemonDataWithAccess_def
  by (rule scanSections_wf) (simp_all add: wellFormedSections_def)

lemma parse_build_wf: "wellFormedSections (parseDaemonDataWithAccess_build c)"
  unfolding parseDaemonDataWithAccess_build_def
  by (rule scanSections_wf) (simp_all add: wellFormedSections_def)

lemma resolve_effective:
  "defaultAccessLevel section \<noteq> Some [] \<Longrightarrow>
   resolveContentAccessLevel (accessLevel b) (orElse (defaultAccessLevel section) ''public'')
     = effectiveLevel section b"
  by (auto simp: resolveContentAccessLevel_def orElse_def effectiveLevel_def split: option.splits)

lemma filterSectionContent_effective:
  assumes "defaultAccessLevel section \<noteq> Some []"
  shows "filterSectionContent section u =
      join [nl, nl]
        (map content
           (filter (\<lambda>b. isAccessible (effectiveLevel section b) u) (contentBlocks section)))"
proof -
  have "blockVisible section u = (\<lambda>b. isAccessible (effectiveLevel section b) u)"
    by (rule ext) (simp add: blockVisible_def resolve_effective[OF assms])
  then show ?thesis
    by (simp add: filterSectionContent_def accessibleBlocks_filter)
qed


lemma filterSections_map_of:
  "distinct (map fst secs) \<Longrightarrow> ''__proto__'' \<notin> fst ` set secs \<Longrightarrow>
   map_of (filterSections secs u acc) k =
     (case map_of secs k of
        Some s \<Rightarrow>
          if trim (filterSectionContent s u) \<noteq> [] then Some (filterSectionContent s u)
          else map_of acc k
      | None \<Rightarrow> map_of acc k)"
proof (induction secs arbitrary: acc)
  case Nil
  show ?case by simp
next
  case (Cons p secs)
  obtain key s where p: "p = (key, s)" by (cases p)
  from Cons.prems p have d: "distinct (map fst secs)" and n: "''__proto__'' \<notin> fst ` set secs"
    and kn: "key \<noteq> ''__proto__''" and kd: "map_of secs key = None"
    by (auto simp: map_of_eq_None_iff)
  have ih: "map_of (filterSections secs u a) k =
     (case map_of secs k of
        Some s \<Rightarrow>
          if trim (filterSectionContent s u) \<noteq> [] then Some (filterSectionContent s u)
          else map_of a k
      | None \<Rightarrow> map_of a k)" for a
    by (rule Cons.IH[OF d n])
  show ?case
  proof (cases "key = k")
    case True
    with kd kn have "map_of secs k = None" and "k \<noteq> ''__proto__''" by simp_all
    then show ?thesis
      unfolding p True
      by (simp add: ih Let_def setProp_def update_conv')
  next
    case False
    then show ?thesis
      unfolding p using kn
      by (simp add: ih Let_def setProp_def update_conv' split: option.splits)
  qed
qed

lemma nonblank_filtered_iff:
  assumes "\<And>b. b \<in> set (contentBlocks s) \<Longrightarrow> trim (content b) \<noteq> []"
  shows "trim (filterSectionContent s u) \<noteq> [] \<longleftrightarrow> (\<exists>b\<in>set (contentBlocks s). blockVisible s u b)"
proof
  assume "trim (filterSectionContent s u) \<noteq> []"
  then have "accessibleBlocks s u (contentBlocks s) \<noteq> []"
    by (auto simp: filterSectionContent_def trim_def)
  then show "\<exists>b\<in>set (contentBlocks s). blockVisible s u b"
    by (auto simp: accessibleBlocks_filter filter_empty_conv)
next
  assume "\<exists>b\<in>set (contentBlocks s). blockVisible s u b"
  then obtain b where b: "b \<in> set (contentBlocks s)" "blockVisible s u b" by blast
  from assms[OF b(1)] obtain c where c: "c \<in> set (content b)" "\<not> isSpace c"
    by (auto simp: trim_eq_Nil_iff)
  from b have "content b \<in> set (accessibleBlocks s u (contentBlocks s))"
    by (auto simp: accessibleBlocks_filter)
  then have "set (content b) \<subseteq> set (filterSectionContent s u)"
    unfolding filterSectionContent_def by (rule set_join)
  with c show "trim (filterSectionContent s u) \<noteq> []"
    by (auto simp: trim_eq_Nil_iff)
qed

lemma wellFormed_blocks:
  "wellFormedSections secs \<Longrightarrow> map_of secs k = Some s \<Longrightarrow> b \<in> set (contentBlocks s) \<Longrightarrow>
   trim (content b) \<noteq> []"
  unfolding wellFormedSections_def by (auto dest!: map_of_SomeD)


lemma loadDaemonData_map_of:
  "map_of (loadDaemonData u provider) k =
     (case map_of (parseDaemonDataWithAccess (getDaemonContent provider)) k of
        Some s \<Rightarrow>
          if \<exists>b\<in>set (contentBlocks s). blockVisible s u b
          then Some (filterSectionContent s u) else None
      | None \<Rightarrow> None)"
proof -
  let ?secs = "parseDaemonDataWithAccess (getDaemonContent provider)"
  have w: "wellFormedSections ?secs" by (rule parse_wf)
  then have d: "distinct (map fst ?secs)" and n: "''__proto__'' \<notin> fst ` set ?secs"
    by (simp_all add: wellFormedSections_def)
  show ?thesis
  proof (cases "map_of ?secs k")
    case None
    then show ?thesis
      by (simp add: loadDaemonData_def Let_def filterSections_map_of[OF d n])
  next
    case (Some s)
    have "trim (filterSectionContent s u) \<noteq> [] \<longleftrightarrow> (\<exists>b\<in>set (contentBlocks s). blockVisible s u b)"
      by (rule nonblank_filtered_iff) (rule wellFormed_blocks[OF w Some])
    with Some show ?thesis
      by (simp add: loadDaemonData_def Let_def filterSections_map_of[OF d n])
  qed
qed

lemma validateBlocks_filter:
  "validateBlocks n l bs errs =
     errs @ map (\<lambda>b. violationMessage n l (accessLevel b))
              (filter (\<lambda>b. accessLevel b \<noteq> ''inherited''
                  \<and> indexOf levelOrder (accessLevel b) < indexOf levelOrder l) bs)"
  by (induction bs arbitrary: errs) (simp_all add: Let_def)

lemma validateSections_pairs:
  "validateSections secs errs =
     errs @ map (\<lambda>(n, l, b). violationMessage n l (accessLevel b)) (violatingPairs secs)"
proof (induction secs arbitrary: errs)
  case Nil
  show ?case by (simp add: violatingPairs_def)
next
  case (Cons p secs)
  obtain n sec where p: "p = (n, sec)" by (cases p)
  have v: "violatingPairs ((n, sec) # secs) =
      (case defaultAccessLevel sec of
          None \<Rightarrow> []
        | Some l \<Rightarrow>
            if l = [] then []
            else map (\<lambda>b. (n, l, b))
                   (filter (\<lambda>b. accessLevel b \<noteq> ''inherited''
                       \<and> indexOf levelOrder (accessLevel b) < indexOf levelOrder l)
                     (contentBlocks sec))) @ violatingPairs secs"
    by (simp add: violatingPairs_def)
  show ?case
    unfolding p v
    by (simp add: Cons.IH validateBlocks_filter comp_def split: option.splits)
qed

lemma canonical_violation_restricted:
  assumes "accessLevel b \<in> set [''inherited'', ''public'', ''restricted'', ''private'']"
  shows "(accessLevel b \<noteq> ''inherited''
            \<and> indexOf levelOrder (accessLevel b) < indexOf levelOrder ''restricted'')
         \<longleftrightarrow> accessLevel b = ''public''"
  using assms by (auto simp: levelOrder_def)

lemma update_map_values:
  "AList.update k (g v) (map (\<lambda>(k, v). (k, g v)) al) = map (\<lambda>(k, v). (k, g v)) (AList.update k v al)"
  by (induction al) auto

lemma setProp_map_values:
  "setProp k (g v) (map (\<lambda>(k, v). (k, g v)) al) = map (\<lambda>(k, v). (k, g v)) (setProp k v al)"
  by (simp add: setProp_def update_map_values)

lemma scanSections_worker_build:
  "scanSections (Some ''public'') s (map (\<lambda>(k, sec). (k, publicByDefault sec)) acc) =
     map (\<lambda>(k, sec). (k, publicByDefault sec)) (scanSections None s acc)"
proof (induction "None :: AccessLevel option" s acc rule: scanSections.induct)
  case (1 sections)
  show ?case by simp
next
  case (2 c s sections)
  show ?case
  proof (cases "matchSectionAt (c # s)")
    case None
    with 2 show ?thesis by simp
  next
    case (Some m)
    obtain m1 m2 m3 rest where m: "m = (m1, m2, m3, rest)" by (cases m)
    let ?b = "\<lparr>name = toLowerCase m1,
                defaultAccessLevel = (case m2 of None \<Rightarrow> None | Some l \<Rightarrow> Some (toLowerCase l)),
                contentBlocks = parseContentBlocks (trim m3)\<rparr>"
    let ?w = "\<lparr>name = toLowerCase m1,
                defaultAccessLevel =
                  (case m2 of None \<Rightarrow> Some ''public'' | Some l \<Rightarrow> Some (toLowerCase l)),
                contentBlocks = parseContentBlocks (trim m3)\<rparr>"
    have e: "?w = publicByDefault ?b"
      by (simp add: publicByDefault_def split: option.splits)
    have ih: "scanSections (Some ''public'') rest
        (map (\<lambda>(k, sec). (k, publicByDefault sec)) (setProp (toLowerCase m1) ?b sections)) =
      map (\<lambda>(k, sec). (k, publicByDefault sec))
        (scanSections None rest (setProp (toLowerCase m1) ?b sections))"
      by (rule "2.hyps"(2)[OF Some, of m1 "(m2, m3, rest)" m2 "(m3, rest)" m3 rest])
         (simp_all add: m)
    show ?thesis
      using Some m ih
      by (simp add: Let_def e setProp_map_values[of _ publicByDefault, symmetric]
               del: AList.update.simps)
  qed
qed

lemma parse_worker_build:
  "parseDaemonDataWithAccess c =
     map (\<lambda>(k, sec). (k, publicByDefault sec)) (parseDaemonDataWithAccess_build c)"
  using scanSections_worker_build[of c "[]"]
  by (simp add: parseDaemonDataWithAccess_def parseDaemonDataWithAccess_build_def)

lemma violatingPairs_Nil_iff:
  "violatingPairs secs = [] \<longleftrightarrow>
     (\<forall>(n, sec)\<in>set secs. \<forall>l. defaultAccessLevel sec = Some l \<longrightarrow> l \<noteq> [] \<longrightarrow>
        (\<forall>b\<in>set (contentBlocks sec). accessLevel b \<noteq> ''inherited'' \<longrightarrow>
           \<not> indexOf levelOrder (accessLevel b) < indexOf levelOrder l))"
  by (fastforce simp: violatingPairs_def filter_empty_conv split: option.splits)

lemma violatingPairs_worker:
  assumes "wellFormedSections secs" and "violatingPairs secs = []"
  shows "violatingPairs (map (\<lambda>(k, sec). (k, publicByDefault sec)) secs) = []"
  unfolding violatingPairs_Nil_iff
proof (clarify)
  fix n sec' l b
  assume m: "(n, sec') \<in> set (map (\<lambda>(k, sec). (k, publicByDefault sec)) secs)"
    and l: "defaultAccessLevel sec' = Some l" "l \<noteq> []"
    and b: "b \<in> set (contentBlocks sec')" "accessLevel b \<noteq> ''inherited''"
    and v: "indexOf levelOrder (accessLevel b) < indexOf levelOrder l"
  from m obtain sec where s: "(n, sec) \<in> set secs" "sec' = publicByDefault sec" by auto
  from b s have b': "b \<in> set (contentBlocks sec)" by (simp add: publicByDefault_def)
  from assms(1) s(1) b' b(2) have c: "accessLevel b \<in> set levelOrder"
    unfolding wellFormedSections_def levelOrder_def by fastforce
  show False
  proof (cases "defaultAccessLevel sec")
    case None
    with l s have "l = ''public''" by (simp add: publicByDefault_def)
    with v c show False by (auto simp: levelOrder_def)
  next
    case (Some l')
    with l s have "l' = l" by (simp add: publicByDefault_def)
    with assms(2) s(1) Some l(2) b' b(2) v show False
      unfolding violatingPairs_Nil_iff by blast
  qed
qed

lemma toolToSection_names:
  "map_of toolToSection tn = Some sn \<Longrightarrow>
   tn \<noteq> [] \<and> tn \<noteq> ''get_all'' \<and> tn \<noteq> ''get_section''
   \<and> sn \<notin> set [''constructor'', ''__proto__'']"
  by (auto simp: toolToSection_def split: if_splits)

lemma sectionOrNotFound_None:
  "map_of sections sn = None \<Longrightarrow> sn \<notin> set [''constructor'', ''__proto__''] \<Longrightarrow>
   sectionOrNotFound sections sn = ToolText (notFoundText sn)"
  by (simp add: sectionOrNotFound_def)

lemma orElse_Some: "tn \<noteq> [] \<Longrightarrow> orElse (Some tn) d = tn"
  by (simp add: orElse_def)

lemma find_get_section:
  "find (\<lambda>t. fst t = ''get_section'') TOOLS = Some (''get_section'', Some ''public'')"
  by (simp add: TOOLS_def)

lemma find_get_nonexistent: "find (\<lambda>t. fst t = ''get_nonexistent'') TOOLS = None"
  by (simp add: TOOLS_def)

lemma isAccessible_public: "isAccessible ''public'' (levelName x)"
  by (cases x) (simp_all add: isAccessible_def levelOrder_def)

lemma matchSectionAt_no_bracket: "CHR ''['' \<noteq> c \<Longrightarrow> matchSectionAt (c # s) = None"
  by (auto simp: matchSectionAt_def matchHeaderNameAt_def)

lemma scanSections_no_bracket: "CHR ''['' \<notin> set s \<Longrightarrow> scanSections dflt s acc = acc"
  by (induction s) (simp_all add: matchSectionAt_no_bracket)

lemma violatingPairs_wellFormed:
  assumes "wellFormedSections secs" and "violatingPairs secs = []"
    and "(n, sec) \<in> set secs" and "defaultAccessLevel sec = Some l"
    and "b \<in> set (contentBlocks sec)" and "accessLevel b \<noteq> ''inherited''"
  shows "indexOf levelOrder l \<le> indexOf levelOrder (accessLevel b)"
proof -
  from assms(1,3,4) have "l \<noteq> []"
    unfolding wellFormedSections_def by auto
  with assms(2-6) have "\<not> indexOf levelOrder (accessLevel b) < indexOf levelOrder l"
    unfolding violatingPairs_Nil_iff by blast
  then show ?thesis by simp
qed

lemma buildDaemonData_written_iff:
  "written (buildDaemonData (Some c) fsOk) = Some c \<longleftrightarrow>
     valid (validateAccessFormat c) \<and> valid (validateContentSecurity c) \<and> fsOk"
  by (simp add: buildDaemonData_def)

lemma sectionOrNotFound_None_eq:
  "map_of s1 sn = None \<Longrightarrow> map_of s2 sn = None \<Longrightarrow>
   sectionOrNotFound s1 sn = sectionOrNotFound s2 sn"
  by (simp add: sectionOrNotFound_def)

lemma find_get_all:
  "find (\<lambda>t. fst t = ''get_all'') TOOLS = Some (''get_all'', Some ''public'')"
  by (simp add: TOOLS_def)

lemma handleToolsCall_unknown:
  "tn \<noteq> [] \<Longrightarrow> find (\<lambda>t. fst t = tn) TOOLS = None \<Longrightarrow>
   handleToolsCall u (Some tn) a p = JsonRpcError (- 32601) (''Unknown tool: '' @ tn)"
  by (simp add: handleToolsCall_def orElse_Some Let_def)

lemma handleToolsCall_denied:
  "tn \<noteq> [] \<Longrightarrow> find (\<lambda>t. fst t = tn) TOOLS = Some tool \<Longrightarrow>
   \<not> isAccessible (orElse (snd tool) ''public'') u \<Longrightarrow>
   handleToolsCall u (Some tn) a p =
     JsonRpcError (- 32603)
       (''Access denied: '' @ tn @ '' requires ''
          @ (case snd tool of None \<Rightarrow> ''undefined'' | Some l \<Rightarrow> l) @ '' access'')"
  by (simp add: handleToolsCall_def orElse_Some Let_def)

lemma handleToolsCall_mapped:
  assumes "map_of toolToSection tn = Some sn"
    and "find (\<lambda>t. fst t = tn) TOOLS = Some tool"
    and "isAccessible (orElse (snd tool) ''public'') u"
  shows "handleToolsCall u (Some tn) a p = sectionOrNotFound (loadDaemonData u p) sn"
proof -
  from toolToSection_names[OF assms(1)]
  have n: "tn \<noteq> []" "tn \<noteq> ''get_all''" "tn \<noteq> ''get_section''"
    by blast+
  with assms show ?thesis
    by (simp add: handleToolsCall_def orElse_Some Let_def)
qed

lemma handleToolsCall_get_section:
  "toLowerCase arg \<noteq> [] \<Longrightarrow>
   handleToolsCall (levelName x) (Some ''get_section'') (ArgString arg) p
     = sectionOrNotFound (loadDaemonData (levelName x) p) (toLowerCase arg)"
  by (simp add: handleToolsCall_def orElse_def Let_def find_get_section isAccessible_public)

lemma handleToolsCall_get_section_empty:
  "toLowerCase arg = [] \<Longrightarrow>
   handleToolsCall (levelName x) (Some ''get_section'') (ArgString arg) p
     = JsonRpcError (- 32602) ''Invalid params: missing section name''"
  by (simp add: handleToolsCall_def orElse_def Let_def find_get_section isAccessible_public)

lemma handleToolsCall_get_all:
  "handleToolsCall (levelName x) (Some ''get_all'') a p
     = ToolStructured (loadDaemonData (levelName x) p)"
  by (simp add: handleToolsCall_def orElse_def Let_def find_get_all isAccessible_public)

lemma loadDaemonData_None: "loadDaemonData u None = []"
  by (simp add: loadDaemonData_def getDaemonContent_def parseDaemonDataWithAccess_def)

lemma scanSections_no_header:
  "(\<And>t. suffix t s \<Longrightarrow> matchSectionAt t = None) \<Longrightarrow> scanSections dflt s acc = acc"
proof (induction s)
  case Nil
  show ?case by simp
next
  case (Cons c s)
  have "matchSectionAt (c # s) = None"
    by (rule Cons.prems) simp
  moreover have "scanSections dflt s acc = acc"
    by (rule Cons.IH) (simp add: Cons.prems suffix_ConsI)
  ultimately show ?case by simp
qed

section \<open>The access table\<close>

text \<open>
  Claim C2. For canonical levels \<open>isAccessible\<close> is the comparison of ranks: it holds
  exactly when the rank of the requester is at least the rank of the content. Of the
  nine pairs of levels six are accessible, the three pairs of equal levels among them,
  and three are not.
\<close>

theorem isAccessible_rank_table:
  "(isAccessible (levelName c) (levelName u) \<longleftrightarrow> rank u \<ge> rank c)
   \<and> length (filter (\<lambda>(x, y). isAccessible (levelName x) (levelName y))
         (List.product allLevels allLevels)) = 6
   \<and> length (filter (\<lambda>(x, y). \<not> isAccessible (levelName x) (levelName y))
         (List.product allLevels allLevels)) = 3
   \<and> isAccessible (levelName c) (levelName c)"
  by (simp add: isAccessible_def indexOf_levelName allLevels_def)

section \<open>The content filter\<close>

text \<open>
  Claim C6. The level by which the filter decides on a block is the effective level of
  the specification: the explicit level of the block when it has one, otherwise the
  declared level of the section, public when the section declares none (no parse yields
  the empty string as a declared level). The filtered text of a section is made of
  exactly the blocks whose effective level is accessible to the requester. So an
  inherited block of a section declared restricted is dropped for a public requester
  and kept for a restricted one.
\<close>

theorem filter_uses_effective_level:
  "(defaultAccessLevel section \<noteq> Some [] \<longrightarrow>
      resolveContentAccessLevel (accessLevel b) (orElse (defaultAccessLevel section) ''public'')
        = effectiveLevel section b
      \<and> filterSectionContent section u =
          join [nl, nl]
            (map content
               (filter (\<lambda>b. isAccessible (effectiveLevel section b) u) (contentBlocks section))))
   \<and> ((k, sec) \<in> set (parseDaemonDataWithAccess c) \<longrightarrow>
      resolveContentAccessLevel (accessLevel b) (orElse (defaultAccessLevel sec) ''public'')
        = effectiveLevel sec b
      \<and> filterSectionContent sec u =
          join [nl, nl]
            (map content
               (filter (\<lambda>b. isAccessible (effectiveLevel sec b) u) (contentBlocks sec))))
   \<and> (defaultAccessLevel section = Some ''restricted'' \<and> accessLevel b = ''inherited'' \<longrightarrow>
        \<not> blockVisible section ''public'' b \<and> blockVisible section ''restricted'' b
        \<and> accessibleBlocks section ''public'' [b] = []
        \<and> accessibleBlocks section ''restricted'' [b] = [content b])"
proof (intro conjI impI)
  show "resolveContentAccessLevel (accessLevel b)
       (orElse (defaultAccessLevel section) ''public'') = effectiveLevel section b"
    if "defaultAccessLevel section \<noteq> Some []"
    using that by (rule resolve_effective)
  show "filterSectionContent section u =
      join [nl, nl]
        (map content
           (filter (\<lambda>b. isAccessible (effectiveLevel section b) u) (contentBlocks section)))"
    if "defaultAccessLevel section \<noteq> Some []"
    using that by (rule filterSectionContent_effective)
next
  assume "(k, sec) \<in> set (parseDaemonDataWithAccess c)"
  with parse_wf[of c] have d: "defaultAccessLevel sec \<noteq> Some []"
    unfolding wellFormedSections_def by blast
  then show "resolveContentAccessLevel (accessLevel b)
       (orElse (defaultAccessLevel sec) ''public'') = effectiveLevel sec b"
    by (rule resolve_effective)
  from d show "filterSectionContent sec u =
      join [nl, nl]
        (map content
           (filter (\<lambda>b. isAccessible (effectiveLevel sec b) u) (contentBlocks sec)))"
    by (rule filterSectionContent_effective)
next
  assume h: "defaultAccessLevel section = Some ''restricted'' \<and> accessLevel b = ''inherited''"
  then show "\<not> blockVisible section ''public'' b"
    by (simp add: blockVisible_def resolveContentAccessLevel_def orElse_def isAccessible_def
          levelOrder_def)
  from h show "blockVisible section ''restricted'' b"
    by (simp add: blockVisible_def resolveContentAccessLevel_def orElse_def isAccessible_def
          levelOrder_def)
  from h show "accessibleBlocks section ''public'' [b] = []"
    by (simp add: resolveContentAccessLevel_def orElse_def isAccessible_def levelOrder_def)
  from h show "accessibleBlocks section ''restricted'' [b] = [content b]"
    by (simp add: resolveContentAccessLevel_def orElse_def isAccessible_def levelOrder_def)
qed

text \<open>The theorem at a section declared restricted with one inherited block.\<close>

theorem filter_uses_effective_level_witness:
  "(''notes'', \<lparr>name = ''notes'', defaultAccessLevel = Some ''restricted'',
       contentBlocks = [\<lparr>content = ''Secret'', accessLevel = ''inherited''\<rparr>]\<rparr>)
     \<in> set (parseDaemonDataWithAccess ''[NOTES] @restricted\<newline>Secret\<newline>'')
   \<and> effectiveLevel
        \<lparr>name = ''notes'', defaultAccessLevel = Some ''restricted'',
           contentBlocks = [\<lparr>content = ''Secret'', accessLevel = ''inherited''\<rparr>]\<rparr>
        \<lparr>content = ''Secret'', accessLevel = ''inherited''\<rparr> = ''restricted''
   \<and> filterSectionContent
        \<lparr>name = ''notes'', defaultAccessLevel = Some ''restricted'',
           contentBlocks = [\<lparr>content = ''Secret'', accessLevel = ''inherited''\<rparr>]\<rparr> ''public'' = []
   \<and> filterSectionContent
        \<lparr>name = ''notes'', defaultAccessLevel = Some ''restricted'',
           contentBlocks = [\<lparr>content = ''Secret'', accessLevel = ''inherited''\<rparr>]\<rparr> ''restricted''
        = ''Secret''
   \<and> accessibleBlocks
        \<lparr>name = ''notes'', defaultAccessLevel = Some ''restricted'',
           contentBlocks = [\<lparr>content = ''Secret'', accessLevel = ''inherited''\<rparr>]\<rparr> ''public''
        [\<lparr>content = ''Secret'', accessLevel = ''inherited''\<rparr>] = []"
proof -
  let ?b = "\<lparr>content = ''Secret'', accessLevel = ''inherited''\<rparr>"
  let ?s = "\<lparr>name = ''notes'', defaultAccessLevel = Some ''restricted'', contentBlocks = [?b]\<rparr>"
  let ?c = "''[NOTES] @restricted\<newline>Secret\<newline>''"
  have m: "(''notes'', ?s) \<in> set (parseDaemonDataWithAccess ?c)"
    by code_simp
  have e: "effectiveLevel ?s ?b = ''restricted''"
    by (simp add: effectiveLevel_def)
  have a: "\<not> isAccessible ''restricted'' ''public''" "isAccessible ''restricted'' ''restricted''"
    by (simp_all add: isAccessible_def levelOrder_def)
  from filter_uses_effective_level[of ?s ?b "''public''" "''notes''" ?s ?c] m e a
  have 1: "filterSectionContent ?s ''public'' = []"
    and 3: "accessibleBlocks ?s ''public'' [?b] = []"
    by simp_all
  from filter_uses_effective_level[of ?s ?b "''restricted''" "''notes''" ?s ?c] m e a
  have 2: "filterSectionContent ?s ''restricted'' = ''Secret''"
    by simp
  from m e 1 2 3 show ?thesis by simp
qed

text \<open>
  Claim C10. Filtering is monotone in the level of the requester. For canonical levels
  \<open>x\<close> and \<open>y\<close> with \<open>rank x \<le> rank y\<close>: a block kept at \<open>x\<close> is kept at \<open>y\<close>; the texts
  kept at \<open>x\<close> are a subsequence of the texts kept at \<open>y\<close>, so none is removed, altered
  or reordered; and every section name in the filtered view at \<open>x\<close> is in the view at
  \<open>y\<close>, for any list of sections and for the view the worker loads from any document.
\<close>

theorem filtering_monotone:
  "rank x \<le> rank y \<Longrightarrow>
     (blockVisible s (levelName x) b \<longrightarrow> blockVisible s (levelName y) b)
   \<and> subseq (accessibleBlocks s (levelName x) bs) (accessibleBlocks s (levelName y) bs)
   \<and> fst ` set (filterSections secs (levelName x) [])
        \<subseteq> fst ` set (filterSections secs (levelName y) [])
   \<and> fst ` set (loadDaemonData (levelName x) provider)
        \<subseteq> fst ` set (loadDaemonData (levelName y) provider)"
proof (intro conjI impI)
  assume r: "rank x \<le> rank y"
  show "blockVisible s (levelName y) b" if "blockVisible s (levelName x) b"
    using r that by (rule blockVisible_mono)
  show "subseq (accessibleBlocks s (levelName x) bs) (accessibleBlocks s (levelName y) bs)"
    using r by (rule accessibleBlocks_mono)
  have k: "fst ` set (filterSections t (levelName x) [])
             \<subseteq> fst ` set (filterSections t (levelName y) [])" for t
    unfolding filterSections_keys
    using filterSectionContent_mono[OF r] by auto
  show "fst ` set (filterSections secs (levelName x) [])
          \<subseteq> fst ` set (filterSections secs (levelName y) [])"
    by (rule k)
  show "fst ` set (loadDaemonData (levelName x) provider)
          \<subseteq> fst ` set (loadDaemonData (levelName y) provider)"
    unfolding loadDaemonData_def Let_def by (rule k)
qed

text \<open>The theorem at the levels public and restricted and a document with two sections.\<close>

theorem filtering_monotone_witness:
  "rank Public \<le> rank Restricted
   \<and> subseq
       (accessibleBlocks
          \<lparr>name = ''notes'', defaultAccessLevel = Some ''public'',
             contentBlocks = []\<rparr> ''public''
          [\<lparr>content = ''Hello'', accessLevel = ''inherited''\<rparr>,
           \<lparr>content = ''Secret'', accessLevel = ''restricted''\<rparr>])
       (accessibleBlocks
          \<lparr>name = ''notes'', defaultAccessLevel = Some ''public'',
             contentBlocks = []\<rparr> ''restricted''
          [\<lparr>content = ''Hello'', accessLevel = ''inherited''\<rparr>,
           \<lparr>content = ''Secret'', accessLevel = ''restricted''\<rparr>])
   \<and> fst ` set (loadDaemonData ''public''
         (Some ''[ABOUT]\<newline>Hello\<newline>[NOTES] @restricted\<newline>Secret\<newline>''))
       \<subseteq> fst ` set (loadDaemonData ''restricted''
         (Some ''[ABOUT]\<newline>Hello\<newline>[NOTES] @restricted\<newline>Secret\<newline>''))"
  using filtering_monotone
    [of Public Restricted
        "\<lparr>name = ''notes'', defaultAccessLevel = Some ''public'', contentBlocks = []\<rparr>"
        "\<lparr>content = ''Hello'', accessLevel = ''inherited''\<rparr>"
        "[\<lparr>content = ''Hello'', accessLevel = ''inherited''\<rparr>,
          \<lparr>content = ''Secret'', accessLevel = ''restricted''\<rparr>]"
        "[]"
        "Some ''[ABOUT]\<newline>Hello\<newline>[NOTES] @restricted\<newline>Secret\<newline>''"]
  by simp



section \<open>The security validator\<close>

text \<open>
  Claim C3. The errors of the validator are one message per violating pair, in document
  order: a section with a declared level and a non-inherited block of it whose level
  ranks strictly below the declared one. All of them are collected, and the result is
  valid exactly when there is none. A section without declared level yields nothing,
  inherited blocks yield nothing. A section declared restricted of which exactly one
  block is marked public yields exactly one message, which names the section.
\<close>

theorem validator_reports_each_violation:
  "errors (validateContentSecurity c) =
      map (\<lambda>(n, l, b). violationMessage n l (accessLevel b))
        (violatingPairs (parseDaemonDataWithAccess_build c))
   \<and> (valid (validateContentSecurity c) \<longleftrightarrow> violatingPairs (parseDaemonDataWithAccess_build c) = [])
   \<and> validateSections secs [] =
        map (\<lambda>(n, l, b). violationMessage n l (accessLevel b)) (violatingPairs secs)
   \<and> (defaultAccessLevel sec = None \<longrightarrow> validateSections [(n, sec)] [] = [])
   \<and> ((\<forall>b\<in>set bs. accessLevel b = ''inherited'') \<longrightarrow> validateBlocks n l bs [] = [])
   \<and> (defaultAccessLevel sec = Some ''restricted''
        \<and> filter (\<lambda>b. accessLevel b = ''public'') (contentBlocks sec) = [b]
        \<and> (\<forall>b'\<in>set (contentBlocks sec).
              accessLevel b' \<in> set [''inherited'', ''public'', ''restricted'', ''private''])
        \<longrightarrow> validateSections [(n, sec)] [] = [violationMessage n ''restricted'' ''public''])"
proof (intro conjI impI)
  show "errors (validateContentSecurity c) =
      map (\<lambda>(n, l, b). violationMessage n l (accessLevel b))
        (violatingPairs (parseDaemonDataWithAccess_build c))"
    by (simp add: validateContentSecurity_def Let_def validateSections_pairs)
  show "valid (validateContentSecurity c) \<longleftrightarrow> violatingPairs (parseDaemonDataWithAccess_build c) = []"
    by (simp add: validateContentSecurity_def Let_def validateSections_pairs)
  show "validateSections secs [] =
        map (\<lambda>(n, l, b). violationMessage n l (accessLevel b)) (violatingPairs secs)"
    by (simp add: validateSections_pairs)
  show "validateSections [(n, sec)] [] = []" if "defaultAccessLevel sec = None"
    using that by simp
  show "validateBlocks n l bs [] = []" if "\<forall>b\<in>set bs. accessLevel b = ''inherited''"
    using that by (simp add: validateBlocks_filter filter_empty_conv)
  assume h: "defaultAccessLevel sec = Some ''restricted''
        \<and> filter (\<lambda>b. accessLevel b = ''public'') (contentBlocks sec) = [b]
        \<and> (\<forall>b'\<in>set (contentBlocks sec).
              accessLevel b' \<in> set [''inherited'', ''public'', ''restricted'', ''private''])"
  have "filter (\<lambda>b. accessLevel b \<noteq> ''inherited''
            \<and> indexOf levelOrder (accessLevel b) < indexOf levelOrder ''restricted'')
          (contentBlocks sec)
        = filter (\<lambda>b. accessLevel b = ''public'') (contentBlocks sec)"
    by (rule filter_cong[OF refl]) (use h in \<open>simp add: canonical_violation_restricted\<close>)
  with h have f: "filter (\<lambda>b. accessLevel b \<noteq> ''inherited''
            \<and> indexOf levelOrder (accessLevel b) < indexOf levelOrder ''restricted'')
          (contentBlocks sec) = [b]"
    by simp
  from h have "b \<in> set (filter (\<lambda>b. accessLevel b = ''public'') (contentBlocks sec))"
    by simp
  then have "accessLevel b = ''public''" by simp
  with h f show "validateSections [(n, sec)] [] = [violationMessage n ''restricted'' ''public'']"
    by (simp add: validateBlocks_filter)
qed


text \<open>
  The theorem at a section declared restricted with an inherited and a public block, and
  at a section without declared level.
\<close>

theorem validator_reports_each_violation_witness:
  "defaultAccessLevel \<lparr>name = ''notes'', defaultAccessLevel = Some ''restricted'',
      contentBlocks = [\<lparr>content = ''Secret'', accessLevel = ''inherited''\<rparr>,
                       \<lparr>content = ''PublicNote'', accessLevel = ''public''\<rparr>]\<rparr> = Some ''restricted''
   \<and> validateSections
        [(''notes'', \<lparr>name = ''notes'', defaultAccessLevel = Some ''restricted'',
            contentBlocks = [\<lparr>content = ''Secret'', accessLevel = ''inherited''\<rparr>,
                             \<lparr>content = ''PublicNote'', accessLevel = ''public''\<rparr>]\<rparr>)] []
      = [''SECURITY VIOLATION: Section [NOTES] is @restricted, but contains @public content (less restrictive). Content must be @restricted or higher.'']
   \<and> validateSections
        [(''about'', \<lparr>name = ''about'', defaultAccessLevel = None,
            contentBlocks = [\<lparr>content = ''Hello'', accessLevel = ''public''\<rparr>]\<rparr>)] [] = []
   \<and> validateBlocks ''notes'' ''restricted''
        [\<lparr>content = ''Secret'', accessLevel = ''inherited''\<rparr>] [] = []"
proof -
  let ?b = "\<lparr>content = ''PublicNote'', accessLevel = ''public''\<rparr>"
  let ?i = "\<lparr>content = ''Secret'', accessLevel = ''inherited''\<rparr>"
  let ?notes = "\<lparr>name = ''notes'', defaultAccessLevel = Some ''restricted'',
      contentBlocks = [?i, ?b]\<rparr>"
  let ?about = "\<lparr>name = ''about'', defaultAccessLevel = None,
      contentBlocks = [\<lparr>content = ''Hello'', accessLevel = ''public''\<rparr>]\<rparr>"
  have m: "violationMessage ''notes'' ''restricted'' ''public'' =
     ''SECURITY VIOLATION: Section [NOTES] is @restricted, but contains @public content (less restrictive). Content must be @restricted or higher.''"
    by code_simp
  from validator_reports_each_violation[of "[]" "[]" ?notes "''notes''" "[?i]" "''restricted''" ?b]
  have 1: "validateSections [(''notes'', ?notes)] [] = [violationMessage ''notes'' ''restricted'' ''public'']"
    and 2: "validateBlocks ''notes'' ''restricted'' [?i] [] = []"
    by simp_all
  from validator_reports_each_violation[of "[]" "[]" ?about "''about''" "[?i]" "''restricted''" ?b]
  have 3: "validateSections [(''about'', ?about)] [] = []"
    by simp
  from 1 2 3 m show ?thesis by simp
qed

section \<open>Where the validator runs\<close>

text \<open>
  Claim C1, as the code has it. The security validator guards the build, not the
  worker. The build script writes a document to the served file exactly when the source
  can be read, the format validator and the security validator both pass on it and the
  file can be written. So in every written document, as the parser of the code reads
  it (the parse of the scripts and the parse of the worker), no section with a declared
  level has a non-inherited block that ranks strictly below that level. The worker runs
  no validator: its view is the filter applied to the parse of whatever text the
  provider returns, as the example after the theorem shows.
\<close>

theorem build_writes_only_validated:
  "(written (buildDaemonData source fsOk) = Some c \<longrightarrow>
     source = Some c \<and> success (buildDaemonData source fsOk)
     \<and> valid (validateAccessFormat c) \<and> valid (validateContentSecurity c)
     \<and> violatingPairs (parseDaemonDataWithAccess_build c) = []
     \<and> violatingPairs (parseDaemonDataWithAccess c) = []
     \<and> (\<forall>(n, sec)\<in>set (parseDaemonDataWithAccess c). \<forall>l. defaultAccessLevel sec = Some l \<longrightarrow>
          (\<forall>b\<in>set (contentBlocks sec). accessLevel b \<noteq> ''inherited'' \<longrightarrow>
             indexOf levelOrder l \<le> indexOf levelOrder (accessLevel b))))
   \<and> (written (buildDaemonData (Some c) fsOk) = Some c \<longleftrightarrow>
        valid (validateAccessFormat c) \<and> valid (validateContentSecurity c) \<and> fsOk)
   \<and> loadDaemonData u provider
        = filterSections (parseDaemonDataWithAccess (getDaemonContent provider)) u []"
proof (intro conjI impI)
  assume w: "written (buildDaemonData source fsOk) = Some c"
  then show s: "source = Some c"
    by (auto simp: buildDaemonData_def split: option.splits if_splits)
  with w show f: "valid (validateAccessFormat c)" and v: "valid (validateContentSecurity c)"
    and ok: "success (buildDaemonData source fsOk)"
    by (auto simp: buildDaemonData_def split: if_splits)
  from v show p: "violatingPairs (parseDaemonDataWithAccess_build c) = []"
    by (simp add: validateContentSecurity_def Let_def validateSections_pairs)
  show q: "violatingPairs (parseDaemonDataWithAccess c) = []"
    unfolding parse_worker_build
    by (rule violatingPairs_worker[OF parse_build_wf p])
  show "\<forall>(n, sec)\<in>set (parseDaemonDataWithAccess c). \<forall>l. defaultAccessLevel sec = Some l \<longrightarrow>
          (\<forall>b\<in>set (contentBlocks sec). accessLevel b \<noteq> ''inherited'' \<longrightarrow>
             indexOf levelOrder l \<le> indexOf levelOrder (accessLevel b))"
    using violatingPairs_wellFormed[OF parse_wf q] by blast
next
  show "written (buildDaemonData (Some c) fsOk) = Some c \<longleftrightarrow>
        valid (validateAccessFormat c) \<and> valid (validateContentSecurity c) \<and> fsOk"
    by (rule buildDaemonData_written_iff)
  show "loadDaemonData u provider
        = filterSections (parseDaemonDataWithAccess (getDaemonContent provider)) u []"
    by (simp add: loadDaemonData_def)
qed

text \<open>
  The theorem at a document that passes both validators: it is written, and its section
  declared restricted holds a private block, which ranks above restricted.
\<close>

theorem build_writes_only_validated_witness:
  "written (buildDaemonData
      (Some ''[ABOUT]\<newline>Hello\<newline>[NOTES] @restricted\<newline>Secret\<newline>@private\<newline>Key\<newline>'') True)
     = Some ''[ABOUT]\<newline>Hello\<newline>[NOTES] @restricted\<newline>Secret\<newline>@private\<newline>Key\<newline>''
   \<and> valid (validateContentSecurity
        ''[ABOUT]\<newline>Hello\<newline>[NOTES] @restricted\<newline>Secret\<newline>@private\<newline>Key\<newline>'')
   \<and> violatingPairs (parseDaemonDataWithAccess
        ''[ABOUT]\<newline>Hello\<newline>[NOTES] @restricted\<newline>Secret\<newline>@private\<newline>Key\<newline>'') = []
   \<and> (''notes'', \<lparr>name = ''notes'', defaultAccessLevel = Some ''restricted'',
          contentBlocks = [\<lparr>content = ''Secret'', accessLevel = ''inherited''\<rparr>,
                           \<lparr>content = ''Key'', accessLevel = ''private''\<rparr>]\<rparr>)
        \<in> set (parseDaemonDataWithAccess
        ''[ABOUT]\<newline>Hello\<newline>[NOTES] @restricted\<newline>Secret\<newline>@private\<newline>Key\<newline>'')
   \<and> indexOf levelOrder ''restricted'' \<le> indexOf levelOrder ''private''"
proof -
  let ?doc = "''[ABOUT]\<newline>Hello\<newline>[NOTES] @restricted\<newline>Secret\<newline>@private\<newline>Key\<newline>''"
  let ?k = "\<lparr>content = ''Key'', accessLevel = ''private''\<rparr>"
  let ?notes = "\<lparr>name = ''notes'', defaultAccessLevel = Some ''restricted'',
          contentBlocks = [\<lparr>content = ''Secret'', accessLevel = ''inherited''\<rparr>, ?k]\<rparr>"
  have w: "written (buildDaemonData (Some ?doc) True) = Some ?doc"
    by code_simp
  have m: "(''notes'', ?notes) \<in> set (parseDaemonDataWithAccess ?doc)"
    by code_simp
  note t = build_writes_only_validated
    [where source = "Some ?doc" and fsOk = True and c = ?doc and u = "''public''"
       and provider = "Some ?doc"]
  from t w have a: "valid (validateContentSecurity ?doc)"
    and b: "violatingPairs (parseDaemonDataWithAccess ?doc) = []"
    and q: "\<forall>(n, sec)\<in>set (parseDaemonDataWithAccess ?doc). \<forall>l. defaultAccessLevel sec = Some l \<longrightarrow>
          (\<forall>b\<in>set (contentBlocks sec). accessLevel b \<noteq> ''inherited'' \<longrightarrow>
             indexOf levelOrder l \<le> indexOf levelOrder (accessLevel b))"
    by blast+
  from q m have "\<forall>l. defaultAccessLevel ?notes = Some l \<longrightarrow>
          (\<forall>b\<in>set (contentBlocks ?notes). accessLevel b \<noteq> ''inherited'' \<longrightarrow>
             indexOf levelOrder l \<le> indexOf levelOrder (accessLevel b))"
    by blast
  then have "indexOf levelOrder ''restricted'' \<le> indexOf levelOrder (accessLevel ?k)"
    by simp
  then have c: "indexOf levelOrder ''restricted'' \<le> indexOf levelOrder ''private''"
    by simp
  from w a b m c show ?thesis by blast
qed

text \<open>
  Claim C1 as stated fails: on the example document of the specification the validator
  reports a violation (a public block in the section declared restricted), and the
  worker still parses the document and computes the view of a public requester.
\<close>

theorem serving_without_validation_counterexample:
  "\<not> valid (validateContentSecurity
        ''[ABOUT]\<newline>Hello\<newline>[NOTES] @restricted\<newline>Secret\<newline>@public\<newline>PublicNote\<newline>'')
   \<and> parseDaemonDataWithAccess
        ''[ABOUT]\<newline>Hello\<newline>[NOTES] @restricted\<newline>Secret\<newline>@public\<newline>PublicNote\<newline>''
      = [(''about'', \<lparr>name = ''about'', defaultAccessLevel = Some ''public'',
            contentBlocks = [\<lparr>content = ''Hello'', accessLevel = ''inherited''\<rparr>]\<rparr>),
         (''notes'', \<lparr>name = ''notes'', defaultAccessLevel = Some ''restricted'',
            contentBlocks = [\<lparr>content = ''Secret'', accessLevel = ''inherited''\<rparr>,
                             \<lparr>content = ''PublicNote'', accessLevel = ''public''\<rparr>]\<rparr>)]
   \<and> loadDaemonData ''public''
        (Some ''[ABOUT]\<newline>Hello\<newline>[NOTES] @restricted\<newline>Secret\<newline>@public\<newline>PublicNote\<newline>'')
      = [(''about'', ''Hello''), (''notes'', ''PublicNote'')]"
  by code_simp

section \<open>The query router\<close>

text \<open>
  Claim C5, as the code has it. An unknown tool identifier is answered by the JSON-RPC
  error -32601 with the message \<^verbatim>\<open>Unknown tool: <id>\<close>, whatever the level of the
  requester, the arguments and the document; so is \<^verbatim>\<open>get_nonexistent\<close>. A known tool
  above the level of the requester is refused with the error -32603, which names the
  level it requires. A tool that is mapped to a section and that the requester may call
  is answered by a result with the text \<^verbatim>\<open>Section '<name>' not found or not accessible\<close>
  whenever the filtered view has no such section, and so is \<^verbatim>\<open>get_section\<close> for every
  section name other than \<^verbatim>\<open>constructor\<close> and \<^verbatim>\<open>__proto__\<close>. For every section name
  \<^verbatim>\<open>get_section\<close> gives one and the same answer for any two requests whose filtered views
  lack the section. The filtered view lacks a section exactly when the document has
  none of that name or none of its blocks is kept for the requester: the two cases
  give the same answer.
\<close>

theorem router_outcomes:
  "(tn \<noteq> [] \<and> find (\<lambda>t. fst t = tn) TOOLS = None \<longrightarrow>
      handleToolsCall u (Some tn) a p = JsonRpcError (- 32601) (''Unknown tool: '' @ tn))
   \<and> handleToolsCall u (Some ''get_nonexistent'') a p
        = JsonRpcError (- 32601) ''Unknown tool: get_nonexistent''
   \<and> (tn \<noteq> [] \<and> find (\<lambda>t. fst t = tn) TOOLS = Some tool
        \<and> \<not> isAccessible (orElse (snd tool) ''public'') u \<longrightarrow>
      handleToolsCall u (Some tn) a p =
        JsonRpcError (- 32603)
          (''Access denied: '' @ tn @ '' requires ''
             @ (case snd tool of None \<Rightarrow> ''undefined'' | Some l \<Rightarrow> l) @ '' access''))
   \<and> (map_of toolToSection tn = Some sn \<and> find (\<lambda>t. fst t = tn) TOOLS = Some tool
        \<and> isAccessible (orElse (snd tool) ''public'') u
        \<and> map_of (loadDaemonData u p) sn = None \<longrightarrow>
      handleToolsCall u (Some tn) a p = ToolText (notFoundText sn))
   \<and> (toLowerCase arg \<noteq> [] \<and> toLowerCase arg \<notin> set [''constructor'', ''__proto__'']
        \<and> map_of (loadDaemonData (levelName x) p) (toLowerCase arg) = None \<longrightarrow>
      handleToolsCall (levelName x) (Some ''get_section'') (ArgString arg) p
        = ToolText (notFoundText (toLowerCase arg)))
   \<and> (map_of (loadDaemonData (levelName x) p) (toLowerCase arg) = None
        \<and> map_of (loadDaemonData (levelName y) q) (toLowerCase arg) = None \<longrightarrow>
      handleToolsCall (levelName x) (Some ''get_section'') (ArgString arg) p
        = handleToolsCall (levelName y) (Some ''get_section'') (ArgString arg) q)
   \<and> (map_of (loadDaemonData u p) sn = None \<longleftrightarrow>
        (case map_of (parseDaemonDataWithAccess (getDaemonContent p)) sn of
           None \<Rightarrow> True
         | Some s \<Rightarrow> \<forall>b\<in>set (contentBlocks s). \<not> blockVisible s u b))"
proof (intro conjI impI)
  show "handleToolsCall u (Some tn) a p = JsonRpcError (- 32601) (''Unknown tool: '' @ tn)"
    if "tn \<noteq> [] \<and> find (\<lambda>t. fst t = tn) TOOLS = None"
    using that by (simp add: handleToolsCall_unknown)
  show "handleToolsCall u (Some ''get_nonexistent'') a p
        = JsonRpcError (- 32601) ''Unknown tool: get_nonexistent''"
    by (simp add: handleToolsCall_unknown find_get_nonexistent)
  show "handleToolsCall u (Some tn) a p =
        JsonRpcError (- 32603)
          (''Access denied: '' @ tn @ '' requires ''
             @ (case snd tool of None \<Rightarrow> ''undefined'' | Some l \<Rightarrow> l) @ '' access'')"
    if "tn \<noteq> [] \<and> find (\<lambda>t. fst t = tn) TOOLS = Some tool
        \<and> \<not> isAccessible (orElse (snd tool) ''public'') u"
    using that by (intro handleToolsCall_denied) simp_all
  show "handleToolsCall u (Some tn) a p = ToolText (notFoundText sn)"
    if h: "map_of toolToSection tn = Some sn \<and> find (\<lambda>t. fst t = tn) TOOLS = Some tool
        \<and> isAccessible (orElse (snd tool) ''public'') u
        \<and> map_of (loadDaemonData u p) sn = None"
  proof -
    from h toolToSection_names[of tn sn]
    have n: "sn \<notin> set [''constructor'', ''__proto__'']" by blast
    from h have h1: "map_of toolToSection tn = Some sn"
      and h2: "find (\<lambda>t. fst t = tn) TOOLS = Some tool"
      and h3: "isAccessible (orElse (snd tool) ''public'') u"
      by blast+
    have "handleToolsCall u (Some tn) a p = sectionOrNotFound (loadDaemonData u p) sn"
      by (rule handleToolsCall_mapped[OF h1 h2 h3])
    also from h n have "\<dots> = ToolText (notFoundText sn)"
      by (intro sectionOrNotFound_None) simp_all
    finally show ?thesis .
  qed
  show "handleToolsCall (levelName x) (Some ''get_section'') (ArgString arg) p
        = ToolText (notFoundText (toLowerCase arg))"
    if h: "toLowerCase arg \<noteq> [] \<and> toLowerCase arg \<notin> set [''constructor'', ''__proto__'']
        \<and> map_of (loadDaemonData (levelName x) p) (toLowerCase arg) = None"
  proof -
    from h have "handleToolsCall (levelName x) (Some ''get_section'') (ArgString arg) p
        = sectionOrNotFound (loadDaemonData (levelName x) p) (toLowerCase arg)"
      by (intro handleToolsCall_get_section) simp
    also from h have "\<dots> = ToolText (notFoundText (toLowerCase arg))"
      by (intro sectionOrNotFound_None) simp_all
    finally show ?thesis .
  qed
  show "handleToolsCall (levelName x) (Some ''get_section'') (ArgString arg) p
        = handleToolsCall (levelName y) (Some ''get_section'') (ArgString arg) q"
    if h: "map_of (loadDaemonData (levelName x) p) (toLowerCase arg) = None
        \<and> map_of (loadDaemonData (levelName y) q) (toLowerCase arg) = None"
  proof (cases "toLowerCase arg = []")
    case True
    then show ?thesis by (simp add: handleToolsCall_get_section_empty)
  next
    case False
    with h show ?thesis
      by (simp add: handleToolsCall_get_section sectionOrNotFound_None_eq)
  qed
  show "map_of (loadDaemonData u p) sn = None \<longleftrightarrow>
        (case map_of (parseDaemonDataWithAccess (getDaemonContent p)) sn of
           None \<Rightarrow> True
         | Some s \<Rightarrow> \<forall>b\<in>set (contentBlocks s). \<not> blockVisible s u b)"
    by (simp add: loadDaemonData_map_of split: option.splits)
qed

text \<open>
  The theorem at a public requester: a section that is fully private and a section that
  the document does not have are answered alike, through the mapped tool and through
  \<^verbatim>\<open>get_section\<close>; an unknown tool is answered by the error -32601, and a restricted
  tool by the error -32603.
\<close>

theorem router_outcomes_witness:
  "handleToolsCall ''public'' (Some ''get_mission'') ArgUndefined
       (Some ''[ABOUT]\<newline>Hello\<newline>[MISSION] @private\<newline>Win\<newline>'')
     = ToolText (notFoundText ''mission'')
   \<and> handleToolsCall ''public'' (Some ''get_mission'') ArgUndefined (Some ''[ABOUT]\<newline>Hello\<newline>'')
     = ToolText (notFoundText ''mission'')
   \<and> handleToolsCall ''public'' (Some ''get_section'') (ArgString ''MISSION'')
       (Some ''[ABOUT]\<newline>Hello\<newline>[MISSION] @private\<newline>Win\<newline>'')
     = ToolText (notFoundText ''mission'')
   \<and> handleToolsCall ''public'' (Some ''get_section'') (ArgString ''MISSION'')
       (Some ''[ABOUT]\<newline>Hello\<newline>[MISSION] @private\<newline>Win\<newline>'')
     = handleToolsCall ''restricted'' (Some ''get_section'') (ArgString ''MISSION'')
       (Some ''[ABOUT]\<newline>Hello\<newline>'')
   \<and> handleToolsCall ''public'' (Some ''get_unknown'') ArgUndefined (Some ''[ABOUT]\<newline>Hello\<newline>'')
     = JsonRpcError (- 32601) ''Unknown tool: get_unknown''
   \<and> handleToolsCall ''public'' (Some ''get_narrative'') ArgUndefined (Some ''[ABOUT]\<newline>Hello\<newline>'')
     = JsonRpcError (- 32603) ''Access denied: get_narrative requires restricted access''"
proof -
  let ?d1 = "Some ''[ABOUT]\<newline>Hello\<newline>[MISSION] @private\<newline>Win\<newline>''"
  let ?d2 = "Some ''[ABOUT]\<newline>Hello\<newline>''"
  have t: "map_of toolToSection ''get_mission'' = Some ''mission''"
    by (simp add: toolToSection_def)
  have f: "find (\<lambda>t. fst t = ''get_mission'') TOOLS = Some (''get_mission'', Some ''public'')"
    by (simp add: TOOLS_def)
  have g: "find (\<lambda>t. fst t = ''get_narrative'') TOOLS
             = Some (''get_narrative'', Some ''restricted'')"
    by (simp add: TOOLS_def)
  have u: "find (\<lambda>t. fst t = ''get_unknown'') TOOLS = None"
    by (simp add: TOOLS_def)
  have acc: "isAccessible (orElse (snd (''get_mission'', Some ''public'')) ''public'') ''public''"
    by code_simp
  have den: "\<not> isAccessible (orElse (snd (''get_narrative'', Some ''restricted'')) ''public'')
                 ''public''"
    by code_simp
  have l1: "map_of (loadDaemonData ''public'' ?d1) ''mission'' = None"
    by code_simp
  have l2: "map_of (loadDaemonData ''public'' ?d2) ''mission'' = None"
    by code_simp
  have l3: "map_of (loadDaemonData ''restricted'' ?d2) ''mission'' = None"
    by code_simp
  have lc: "toLowerCase ''MISSION'' = ''mission''"
    by code_simp
  have msg: "''Access denied: '' @ ''get_narrative'' @ '' requires '' @ ''restricted'' @ '' access''
               = ''Access denied: get_narrative requires restricted access''"
    by simp
  from router_outcomes
    [where tn = "''get_mission''" and u = "''public''" and a = ArgUndefined and p = ?d1
       and sn = "''mission''" and tool = "(''get_mission'', Some ''public'')"
       and arg = "''MISSION''" and x = Public and y = Restricted and q = ?d2]
    t f acc l1 l3 lc
  have 1: "handleToolsCall ''public'' (Some ''get_mission'') ArgUndefined ?d1
             = ToolText (notFoundText ''mission'')"
    and 3: "handleToolsCall ''public'' (Some ''get_section'') (ArgString ''MISSION'') ?d1
             = ToolText (notFoundText ''mission'')"
    and 5: "handleToolsCall ''public'' (Some ''get_section'') (ArgString ''MISSION'') ?d1
             = handleToolsCall ''restricted'' (Some ''get_section'') (ArgString ''MISSION'') ?d2"
    by auto
  from router_outcomes
    [where tn = "''get_mission''" and u = "''public''" and a = ArgUndefined and p = ?d2
       and sn = "''mission''" and tool = "(''get_mission'', Some ''public'')"
       and arg = "''MISSION''" and x = Public and y = Restricted and q = ?d2]
    t f acc l2
  have 2: "handleToolsCall ''public'' (Some ''get_mission'') ArgUndefined ?d2
             = ToolText (notFoundText ''mission'')"
    by simp
  from router_outcomes
    [where tn = "''get_unknown''" and u = "''public''" and a = ArgUndefined and p = ?d2
       and sn = "''mission''" and tool = "(''get_mission'', Some ''public'')"
       and arg = "''MISSION''" and x = Public and y = Restricted and q = ?d2]
    u
  have 4: "handleToolsCall ''public'' (Some ''get_unknown'') ArgUndefined ?d2
             = JsonRpcError (- 32601) ''Unknown tool: get_unknown''"
    by simp
  from router_outcomes
    [where tn = "''get_narrative''" and u = "''public''" and a = ArgUndefined and p = ?d2
       and sn = "''mission''" and tool = "(''get_narrative'', Some ''restricted'')"
       and arg = "''MISSION''" and x = Public and y = Restricted and q = ?d2]
    g den msg
  have 6: "handleToolsCall ''public'' (Some ''get_narrative'') ArgUndefined ?d2
             = JsonRpcError (- 32603) ''Access denied: get_narrative requires restricted access''"
    by simp
  from 1 2 3 4 5 6 show ?thesis by simp
qed

text \<open>
  Claim C5 as stated fails: the outcome for an unknown identifier is an error, the
  outcome for an identifier whose section is omitted is a result with a text, and a tool
  above the level of the requester is refused with a third outcome that tells which
  level it requires.
\<close>

theorem router_outcomes_counterexample:
  "handleToolsCall ''public'' (Some ''get_nonexistent'') ArgUndefined (Some [])
     = JsonRpcError (- 32601) ''Unknown tool: get_nonexistent''
   \<and> handleToolsCall ''public'' (Some ''get_about'') ArgUndefined (Some [])
     = ToolText (''Section '' @ [CHR 0x27] @ ''about'' @ [CHR 0x27] @ '' not found or not accessible'')
   \<and> handleToolsCall ''public'' (Some ''get_narrative'') ArgUndefined (Some [])
     = JsonRpcError (- 32603) ''Access denied: get_narrative requires restricted access''"
  by code_simp

section \<open>When the document cannot be fetched\<close>

text \<open>
  Claim C8, as the code has it. When the provider fails, \<open>getDaemonContent\<close> returns the
  empty string and the request is answered exactly as for an empty document: the
  filtered view is empty and no failure is reported. A mapped tool that the requester
  may call answers with the not-found text, \<^verbatim>\<open>get_section\<close> does so for every section
  name other than \<^verbatim>\<open>constructor\<close> and \<^verbatim>\<open>__proto__\<close>, and \<^verbatim>\<open>get_all\<close> answers with no
  sections. The empty document parses to zero sections, and so does every text in which
  the header pattern matches at no position, such as a text without an opening bracket.
\<close>

theorem unavailable_source_as_empty:
  "getDaemonContent None = []
   \<and> loadDaemonData u None = []
   \<and> handleToolsCall u tn a None = handleToolsCall u tn a (Some [])
   \<and> parseDaemonDataWithAccess [] = []
   \<and> (CHR ''['' \<notin> set c \<longrightarrow> parseDaemonDataWithAccess c = [])
   \<and> ((\<forall>t. suffix t c \<longrightarrow> matchSectionAt t = None) \<longrightarrow> parseDaemonDataWithAccess c = [])
   \<and> (map_of toolToSection tool_name = Some sn \<and> find (\<lambda>t. fst t = tool_name) TOOLS = Some tool
        \<and> isAccessible (orElse (snd tool) ''public'') u \<longrightarrow>
      handleToolsCall u (Some tool_name) a None = ToolText (notFoundText sn))
   \<and> (toLowerCase arg \<noteq> [] \<and> toLowerCase arg \<notin> set [''constructor'', ''__proto__''] \<longrightarrow>
      handleToolsCall (levelName x) (Some ''get_section'') (ArgString arg) None
        = ToolText (notFoundText (toLowerCase arg)))
   \<and> handleToolsCall (levelName x) (Some ''get_all'') a None = ToolStructured []"
proof (intro conjI impI)
  show "getDaemonContent None = []"
    by (simp add: getDaemonContent_def)
  show "loadDaemonData u None = []"
    by (rule loadDaemonData_None)
  have e: "loadDaemonData u None = loadDaemonData u (Some [])"
    by (simp add: loadDaemonData_def getDaemonContent_def)
  show "handleToolsCall u tn a None = handleToolsCall u tn a (Some [])"
    unfolding handleToolsCall_def e ..
  show "parseDaemonDataWithAccess [] = []"
    by (simp add: parseDaemonDataWithAccess_def)
  show "parseDaemonDataWithAccess c = []" if "CHR ''['' \<notin> set c"
    using that by (simp add: parseDaemonDataWithAccess_def scanSections_no_bracket)
  show "parseDaemonDataWithAccess c = []" if "\<forall>t. suffix t c \<longrightarrow> matchSectionAt t = None"
    using that by (simp add: parseDaemonDataWithAccess_def scanSections_no_header)
  show "handleToolsCall u (Some tool_name) a None = ToolText (notFoundText sn)"
    if h: "map_of toolToSection tool_name = Some sn \<and> find (\<lambda>t. fst t = tool_name) TOOLS = Some tool
        \<and> isAccessible (orElse (snd tool) ''public'') u"
  proof -
    from h toolToSection_names[of tool_name sn]
    have n: "sn \<notin> set [''constructor'', ''__proto__'']" by blast
    from h have h1: "map_of toolToSection tool_name = Some sn"
      and h2: "find (\<lambda>t. fst t = tool_name) TOOLS = Some tool"
      and h3: "isAccessible (orElse (snd tool) ''public'') u"
      by blast+
    have "handleToolsCall u (Some tool_name) a None
            = sectionOrNotFound (loadDaemonData u None) sn"
      by (rule handleToolsCall_mapped[OF h1 h2 h3])
    also from n have "\<dots> = ToolText (notFoundText sn)"
      by (intro sectionOrNotFound_None) (simp_all add: loadDaemonData_None)
    finally show ?thesis .
  qed
  show "handleToolsCall (levelName x) (Some ''get_section'') (ArgString arg) None
        = ToolText (notFoundText (toLowerCase arg))"
    if h: "toLowerCase arg \<noteq> [] \<and> toLowerCase arg \<notin> set [''constructor'', ''__proto__'']"
  proof -
    from h have "handleToolsCall (levelName x) (Some ''get_section'') (ArgString arg) None
        = sectionOrNotFound (loadDaemonData (levelName x) None) (toLowerCase arg)"
      by (intro handleToolsCall_get_section) simp
    also from h have "\<dots> = ToolText (notFoundText (toLowerCase arg))"
      by (intro sectionOrNotFound_None) (simp_all add: loadDaemonData_None)
    finally show ?thesis .
  qed
  show "handleToolsCall (levelName x) (Some ''get_all'') a None = ToolStructured []"
    by (simp add: handleToolsCall_get_all loadDaemonData_None)
qed

text \<open>
  The theorem at a text with a bracket and no header, at a text without bracket, and at
  a public requester of a mapped tool and of \<^verbatim>\<open>get_section\<close>.
\<close>

theorem unavailable_source_as_empty_witness:
  "CHR ''['' \<notin> set ''hello'' \<and> parseDaemonDataWithAccess ''hello'' = []
   \<and> map matchSectionAt (suffixes ''a[b'') = [None, None, None, None]
   \<and> parseDaemonDataWithAccess ''a[b'' = []
   \<and> handleToolsCall ''public'' (Some ''get_about'') ArgUndefined None
        = ToolText (notFoundText ''about'')
   \<and> handleToolsCall ''public'' (Some ''get_section'') (ArgString ''ABOUT'') None
        = ToolText (notFoundText ''about'')"
proof -
  have m: "map matchSectionAt (suffixes ''a[b'') = [None, None, None, None]"
    by code_simp
  have s: "\<forall>t\<in>set (suffixes ''a[b''). matchSectionAt t = None"
    by code_simp
  have n: "\<forall>t. suffix t ''a[b'' \<longrightarrow> matchSectionAt t = None"
    using s in_set_suffixes by blast
  have t: "map_of toolToSection ''get_about'' = Some ''about''"
    by (simp add: toolToSection_def)
  have f: "find (\<lambda>t. fst t = ''get_about'') TOOLS = Some (''get_about'', Some ''public'')"
    by (simp add: TOOLS_def)
  have acc: "isAccessible (orElse (snd (''get_about'', Some ''public'')) ''public'') ''public''"
    by code_simp
  have lc: "toLowerCase ''ABOUT'' = ''about''"
    by code_simp
  from unavailable_source_as_empty
    [where u = "''public''" and tn = "Some ''get_about''" and a = ArgUndefined
       and c = "''hello''" and tool_name = "''get_about''" and sn = "''about''"
       and tool = "(''get_about'', Some ''public'')" and arg = "''ABOUT''" and x = Public]
    t f acc lc
  have 1: "parseDaemonDataWithAccess ''hello'' = []"
    and 3: "handleToolsCall ''public'' (Some ''get_about'') ArgUndefined None
        = ToolText (notFoundText ''about'')"
    and 4: "handleToolsCall ''public'' (Some ''get_section'') (ArgString ''ABOUT'') None
        = ToolText (notFoundText ''about'')"
    by auto
  from unavailable_source_as_empty
    [where u = "''public''" and tn = "Some ''get_about''" and a = ArgUndefined
       and c = "''a[b''" and tool_name = "''get_about''" and sn = "''about''"
       and tool = "(''get_about'', Some ''public'')" and arg = "''ABOUT''" and x = Public]
    n
  have 2: "parseDaemonDataWithAccess ''a[b'' = []"
    by blast
  from 1 2 3 4 m show ?thesis by simp
qed

text \<open>
  Claim C8 as stated fails: with a failing provider a section tool answers with the
  not-found text and \<^verbatim>\<open>get_all\<close> with no sections, as results and not as failures; and a
  document that is not empty parses to zero sections.
\<close>

theorem unavailable_source_counterexample:
  "handleToolsCall ''public'' (Some ''get_about'') ArgUndefined None
     = ToolText (''Section '' @ [CHR 0x27] @ ''about'' @ [CHR 0x27] @ '' not found or not accessible'')
   \<and> handleToolsCall ''public'' (Some ''get_all'') ArgUndefined None = ToolStructured []
   \<and> parseDaemonDataWithAccess ''hello'' = []"
  by code_simp

section \<open>Markers that the split does not see\<close>

text \<open>
  Claim C7 on the code. The split pattern needs a line feed before the marker and one
  after it. The body is trimmed before it is split, so a marker on its first line has
  no line feed before it: it is not seen as a marker, and the whole body becomes one
  inherited block whose text holds the marker line. In a section declared public the
  text after \<^verbatim>\<open>@private\<close> is then served to a public requester, and both validators of
  the build accept the document. A marker that follows another marker line directly (or
  after blank lines) is not seen either, since the first match has consumed the line
  feed before it: its line and its text become the text of the block of the first
  marker.
\<close>

theorem first_line_marker_not_split:
  "parseContentBlocks ''@private\<newline>secret''
     = [\<lparr>content = ''@private\<newline>secret'', accessLevel = ''inherited''\<rparr>]
   \<and> parseDaemonDataWithAccess ''[A] @public\<newline>@private\<newline>secret\<newline>''
     = [(''a'', \<lparr>name = ''a'', defaultAccessLevel = Some ''public'',
           contentBlocks = [\<lparr>content = ''@private\<newline>secret'', accessLevel = ''inherited''\<rparr>]\<rparr>)]
   \<and> loadDaemonData ''public'' (Some ''[A] @public\<newline>@private\<newline>secret\<newline>'')
     = [(''a'', ''@private\<newline>secret'')]
   \<and> written (buildDaemonData (Some ''[A] @public\<newline>@private\<newline>secret\<newline>'') True)
     = Some ''[A] @public\<newline>@private\<newline>secret\<newline>''
   \<and> parseContentBlocks ''Intro\<newline>@public\<newline>\<newline>@private\<newline>secret''
     = [\<lparr>content = ''Intro'', accessLevel = ''inherited''\<rparr>,
        \<lparr>content = ''@private\<newline>secret'', accessLevel = ''public''\<rparr>]"
  by code_simp

section \<open>What the format validator reports\<close>

text \<open>
  Claim C9 on the code. The pattern for markers in the content is not anchored at the
  start of a line: a line of text that ends in \<^verbatim>\<open>@word\<close> is reported as an invalid
  content access level although it is no marker line. The pattern needs a line feed
  after the token: a line \<^verbatim>\<open>@privat\<close> that ends the document without line feed is
  not reported. A header with an invalid marker that is followed by a line feed is
  reported twice, by the header pattern and by the content pattern.
\<close>

theorem format_validator_misreports:
  "errors (validateAccessFormat ''[ABOUT]\<newline>ping me @kheeran\<newline>'')
     = [''Invalid content access level: @kheeran'']
   \<and> \<not> valid (validateAccessFormat ''[ABOUT]\<newline>ping me @kheeran\<newline>'')
   \<and> errors (validateAccessFormat ''[ABOUT]\<newline>Hello\<newline>@privat'') = []
   \<and> valid (validateAccessFormat ''[ABOUT]\<newline>Hello\<newline>@privat'')
   \<and> errors (validateAccessFormat ''[ABOUT] @secret\<newline>Hello\<newline>'')
     = [''Section '' @ [dq] @ ''ABOUT'' @ [dq] @ '' has invalid access level: @secret'',
        ''Invalid content access level: @secret'']"
  by code_simp

end
